theory Spec2Isabelle
  imports Main "HOL-Library.Sublist" "HOL-Library.Multiset"
begin

section \<open>Strings\<close>

text \<open>
  A Python \<open>str\<close> is modelled as a \<open>string\<close> whose characters stand for the code points
  0 to 255, so the model covers text over Latin-1. \<open>is_space\<close> lists the code points below
  256 for which \<open>str.isspace\<close> holds; they are also the characters that \<open>str.strip()\<close>
  removes and that \<open>\s\<close> matches in a \<open>str\<close> pattern of the \<open>re\<close> module.
\<close>

definition is_space :: "char \<Rightarrow> bool" where
  "is_space c = (c \<in> set [CHR 0x09, CHR 0x0A, CHR 0x0B, CHR 0x0C, CHR 0x0D,
                            CHR 0x1C, CHR 0x1D, CHR 0x1E, CHR 0x1F, CHR 0x20,
                            CHR 0x85, CHR 0xA0])"

text \<open>\<open>s.strip()\<close>: leading and trailing whitespace removed.\<close>

definition strip :: "string \<Rightarrow> string" where
  "strip s = rev (dropWhile is_space (rev (dropWhile is_space s)))"

text \<open>\<open>s.lower()\<close>, character by character: A to Z, and the upper-case letters of Latin-1.\<close>

definition lower_char :: "char \<Rightarrow> char" where
  "lower_char c =
     (case map_of (zip ''ABCDEFGHIJKLMNOPQRSTUVWXYZ'' ''abcdefghijklmnopqrstuvwxyz'') c of
        Some d \<Rightarrow> d
      | None \<Rightarrow> (let n = (of_char c :: nat) in
                  if 192 \<le> n \<and> n \<le> 222 \<and> n \<noteq> 215 then char_of (n + 32) else c))"

definition lower :: "string \<Rightarrow> string" where
  "lower s = map lower_char s"

text \<open>
  \<open>re.sub(r"\s{2,}", " ", s)\<close>: scanning from the left, every maximal run of two or more
  whitespace characters is replaced by one space; a single whitespace character stays
  as it is.
\<close>

function collapse :: "string \<Rightarrow> string" where
  "collapse [] = []"
| "collapse [c] = [c]"
| "collapse (c # d # cs) =
     (if is_space c \<and> is_space d then CHR '' '' # collapse (dropWhile is_space cs)
      else c # collapse (d # cs))"
  by pat_completeness auto
termination
  by (relation "measure length")
     (auto simp: less_Suc_eq_le intro: le_trans [OF length_dropWhile_le])

text \<open>\<open>sep.join(xs)\<close>.\<close>

fun join :: "string \<Rightarrow> string list \<Rightarrow> string" where
  "join sep [] = []"
| "join sep [x] = x"
| "join sep (x # y # ys) = x @ sep @ join sep (y # ys)"

section \<open>Cell values\<close>

text \<open>
  The values a cell of the table holds while the program runs: \<open>NaN\<close> (what
  \<open>pd.read_csv\<close> puts for an empty cell), \<open>None\<close>, a string, or a boolean. The program
  reads a raw cell only through \<open>str\<close>, \<open>astype(str)\<close> and \<open>pd.isna\<close>, so a number read
  from the file is represented by its \<open>str\<close> rendering.
\<close>

datatype cell = PyNaN | PyNone | PyStr string | PyBool bool

text \<open>\<open>pd.isna(x)\<close>.\<close>

fun isna :: "cell \<Rightarrow> bool" where
  "isna PyNaN = True"
| "isna PyNone = True"
| "isna (PyStr s) = False"
| "isna (PyBool b) = False"

text \<open>
  \<open>str(x)\<close>. \<open>astype(str)\<close> on an object column renders each element the same way, a
  missing value too: \<open>NaN\<close> becomes the text \<open>nan\<close> and \<open>None\<close> the text \<open>None\<close>.
\<close>

fun py_str :: "cell \<Rightarrow> string" where
  "py_str PyNaN = ''nan''"
| "py_str PyNone = ''None''"
| "py_str (PyStr s) = s"
| "py_str (PyBool b) = (if b then ''True'' else ''False'')"

text \<open>Truth value of \<open>x\<close> in \<open>not x\<close>: \<open>None\<close>, the empty string and \<open>False\<close> are false.\<close>

fun truthy :: "cell \<Rightarrow> bool" where
  "truthy PyNaN = True"
| "truthy PyNone = False"
| "truthy (PyStr s) = (s \<noteq> [])"
| "truthy (PyBool b) = b"

text \<open>
  Element-wise column operations of pandas, on object columns as \<open>pd.read_csv\<close> makes
  them for text.
\<close>

definition astype_str :: "cell \<Rightarrow> cell" where
  "astype_str c = PyStr (py_str c)"

text \<open>\<open>.str.strip()\<close>: a missing value stays, a non-string element becomes \<open>NaN\<close>.\<close>

fun str_strip :: "cell \<Rightarrow> cell" where
  "str_strip (PyStr s) = PyStr (strip s)"
| "str_strip PyNone = PyNone"
| "str_strip PyNaN = PyNaN"
| "str_strip (PyBool b) = PyNaN"

text \<open>\<open>.replace({"": None})\<close>.\<close>

fun replace_empty :: "cell \<Rightarrow> cell" where
  "replace_empty (PyStr s) = (if s = [] then PyNone else PyStr s)"
| "replace_empty c = c"

text \<open>\<open>.str.replace(r"\s{2,}", " ", regex=True)\<close>.\<close>

fun str_replace_ws :: "cell \<Rightarrow> cell" where
  "str_replace_ws (PyStr s) = PyStr (collapse s)"
| "str_replace_ws PyNone = PyNone"
| "str_replace_ws PyNaN = PyNaN"
| "str_replace_ws (PyBool b) = PyNaN"

section \<open>Dates\<close>

record date =
  year :: nat
  month :: nat
  day :: nat

record datetime = date +
  hour :: nat
  minute :: nat
  second :: nat

text \<open>\<open>dt.date()\<close>.\<close>

definition date_of :: "datetime \<Rightarrow> date" where
  "date_of dt = \<lparr>year = year dt, month = month dt, day = day dt\<rparr>"

text \<open>The dates and datetimes Python can represent.\<close>

definition valid_date :: "'a date_scheme \<Rightarrow> bool" where
  "valid_date d = (1 \<le> year d \<and> year d \<le> 9999 \<and> 1 \<le> month d \<and> month d \<le> 12
                   \<and> 1 \<le> day d \<and> day d \<le> 31)"

definition digit_char :: "nat \<Rightarrow> char" where
  "digit_char d = ''0123456789'' ! d"

fun dec :: "nat \<Rightarrow> string" where
  "dec n = (if n < 10 then [digit_char n] else dec (n div 10) @ [digit_char (n mod 10)])"

declare dec.simps [simp del]

text \<open>\<open>"%0wd" % n\<close>.\<close>

definition zfill :: "nat \<Rightarrow> nat \<Rightarrow> string" where
  "zfill w n = replicate (w - length (dec n)) CHR ''0'' @ dec n"

text \<open>\<open>d.isoformat()\<close>, that is \<open>"%04d-%02d-%02d" % (year, month, day)\<close>.\<close>

definition isoformat :: "date \<Rightarrow> string" where
  "isoformat d = zfill 4 (year d) @ ''-'' @ zfill 2 (month d) @ ''-'' @ zfill 2 (day d)"

text \<open>The shape \<open>YYYY-MM-DD\<close>.\<close>

definition is_digit :: "char \<Rightarrow> bool" where
  "is_digit c = (c \<in> set ''0123456789'')"

definition is_ymd :: "string \<Rightarrow> bool" where
  "is_ymd s = (length s = 10 \<and> list_all is_digit (take 4 s) \<and> s ! 4 = CHR ''-''
               \<and> list_all is_digit (take 2 (drop 5 s)) \<and> s ! 7 = CHR ''-''
               \<and> list_all is_digit (drop 8 s))"

text \<open>
  \<open>dateparser.parse(s, dayfirst=True)\<close> of \<open>dateutil\<close> is outside the repository; it is a
  parameter of the model. \<open>None\<close> stands for any exception it raises.
\<close>

type_synonym parser = "string \<Rightarrow> datetime option"

section \<open>Regular expressions\<close>

text \<open>
  The pattern of the program is a sequence of character classes, each taken once or one
  or more times. \<open>matches\<close> is the backtracking matcher on the whole string.
\<close>

datatype item = One "char \<Rightarrow> bool" | Many "char \<Rightarrow> bool"

fun matches :: "item list \<Rightarrow> string \<Rightarrow> bool" where
  "matches [] s = (s = [])"
| "matches (One p # r) [] = False"
| "matches (One p # r) (c # s) = (p c \<and> matches r s)"
| "matches (Many p # r) [] = False"
| "matches (Many p # r) (c # s) = (p c \<and> (matches (Many p # r) s \<or> matches r s))"

text \<open>The class \<open>[^@\s]\<close>.\<close>

definition not_at_space :: "char \<Rightarrow> bool" where
  "not_at_space c = (c \<noteq> CHR ''@'' \<and> \<not> is_space c)"

text \<open>\<open>EMAIL_RE = re.compile(r"^[^@\s]+@[^@\s]+\.[^@\s]+$")\<close>, between the anchors.\<close>

definition EMAIL_RE :: "item list" where
  "EMAIL_RE = [Many not_at_space, One (\<lambda>c. c = CHR ''@''), Many not_at_space,
               One (\<lambda>c. c = CHR ''.''), Many not_at_space]"

text \<open>
  \<open>EMAIL_RE.match(s)\<close> is not \<open>None\<close>: \<open>^\<close> is the start of the string; \<open>$\<close> is its end,
  or the place just before a newline that ends the string.
\<close>

definition email_re_match :: "string \<Rightarrow> bool" where
  "email_re_match s =
     (matches EMAIL_RE s \<or> (s \<noteq> [] \<and> last s = CHR 0x0A \<and> matches EMAIL_RE (butlast s)))"

section \<open>The loader\<close>

definition REQUIRED_COLS :: "string list" where
  "REQUIRED_COLS = [''id'', ''name'', ''email'', ''role'', ''start_date'', ''active'']"

text \<open>
  What \<open>pd.read_csv(path)\<close> returns when it returns: the column names of the header, and
  the rows in file order, each a function from column name to cell (read only at names
  in \<open>columns\<close>).
\<close>

record table =
  columns :: "string list"
  body :: "(string \<Rightarrow> cell) list"

text \<open>
  The errors \<open>pd.read_csv\<close> raises instead: a data line with more fields than the lines
  before it, bytes that are not text in the encoding, a file with nothing in it, no file
  at the path.
\<close>

datatype read_error = ParserError | UnicodeDecodeError | EmptyDataError | FileNotFoundError

text \<open>
  What \<open>read_csv\<close> ends with when it fails: its own
  \<open>ValueError(f"Fehlende Spalten: {missing}")\<close>, or an error of \<open>pd.read_csv\<close>, which it
  does not catch.
\<close>

datatype pyexn = ValueError "string list" | ReadError read_error

text \<open>
  The file at the path: the column names of its header line, and what \<open>pd.read_csv\<close>
  makes of its lines, the rows or the error. pandas is outside the repository; which files
  it rejects is part of the input.
\<close>

record csv_file =
  header :: "string list"
  content :: "read_error + (string \<Rightarrow> cell) list"

definition pd_read_csv :: "csv_file \<Rightarrow> pyexn + table" where
  "pd_read_csv path =
     (case content path of
        Inl e \<Rightarrow> Inl (ReadError e)
      | Inr rows \<Rightarrow> Inr \<lparr>columns = header path, body = rows\<rparr>)"

definition read_csv :: "csv_file \<Rightarrow> pyexn + table" where
  "read_csv path =
     (case pd_read_csv path of
        Inl e \<Rightarrow> Inl e
      | Inr df \<Rightarrow>
          (let missing = filter (\<lambda>c. c \<notin> set (columns df)) REQUIRED_COLS
           in if missing \<noteq> [] then Inl (ValueError missing) else Inr df))"

section \<open>Records and frames\<close>

text \<open>
  The six required fields of a row. Columns beyond these six are carried along
  untouched by every stage and are left out.
\<close>

record row =
  id' :: cell
  name :: cell
  email :: cell
  role :: cell
  start_date :: cell
  active :: cell

text \<open>A row together with the helper column \<open>error\<close>.\<close>

record erow = row +
  error :: string

text \<open>A DataFrame: its rows in order, each with its index label.\<close>

type_synonym frame = "(nat \<times> row) list"

type_synonym eframe = "(nat \<times> erow) list"

text \<open>The frame of the six required columns of a table; the index is \<open>0, 1, 2, ...\<close>.\<close>

definition to_frame :: "table \<Rightarrow> frame" where
  "to_frame t = zip [0 ..< length (body t)]
     (map (\<lambda>f. \<lparr>id' = f ''id'', name = f ''name'', email = f ''email'', role = f ''role'',
                start_date = f ''start_date'', active = f ''active''\<rparr>) (body t))"

text \<open>\<open>df[col] = f(df[col])\<close> for an element-wise \<open>f\<close>; \<open>upd\<close> is the update of field \<open>col\<close>.\<close>

definition assign :: "((cell \<Rightarrow> cell) \<Rightarrow> row \<Rightarrow> row) \<Rightarrow> (cell \<Rightarrow> cell) \<Rightarrow> frame \<Rightarrow> frame" where
  "assign upd f df = map (\<lambda>(i, r). (i, upd f r)) df"

section \<open>Normalisation\<close>

definition normalize_strings :: "frame \<Rightarrow> frame" where
  "normalize_strings df =
     (let df = assign name_update (replace_empty \<circ> str_strip \<circ> astype_str) df;
          df = assign name_update str_replace_ws df;
          df = assign email_update (replace_empty \<circ> str_strip \<circ> astype_str) df;
          df = assign role_update (replace_empty \<circ> str_strip \<circ> astype_str) df;
          df = assign id'_update (str_strip \<circ> astype_str) df
      in df)"

definition parse_bool :: "cell \<Rightarrow> cell" where
  "parse_bool val =
     (if isna val then PyNone
      else let s = lower (strip (py_str val)) in
        if s \<in> set [''true'', ''1'', ''yes'', ''y''] then PyBool True
        else if s \<in> set [''false'', ''0'', ''no'', ''n''] then PyBool False
        else PyNone)"

text \<open>The \<open>try\<close> block returns the ISO date; \<open>except Exception\<close> returns \<open>None\<close>.\<close>

definition parse_date :: "parser \<Rightarrow> cell \<Rightarrow> cell" where
  "parse_date dp x =
     (if isna x \<or> strip (py_str x) = [] then PyNone
      else case dp (py_str x) of
             Some dt \<Rightarrow> PyStr (isoformat (date_of dt))
           | None \<Rightarrow> PyNone)"

definition normalize_types :: "parser \<Rightarrow> frame \<Rightarrow> frame" where
  "normalize_types dp df =
     (let df = assign active_update parse_bool df;
          df = assign start_date_update (parse_date dp) df
      in df)"

text \<open>A string that is not empty and has no whitespace at either end.\<close>

definition stripped :: "string \<Rightarrow> bool" where
  "stripped t = (t \<noteq> [] \<and> \<not> is_space (hd t) \<and> \<not> is_space (last t))"

text \<open>
  What the two stages together make of one row; \<open>normalize_rows\<close> below proves that the
  stages do this to every row of a frame.
\<close>

definition normalize_row :: "parser \<Rightarrow> row \<Rightarrow> row" where
  "normalize_row dp r =
     \<lparr>id' = str_strip (astype_str (id' r)),
      name = str_replace_ws (replace_empty (str_strip (astype_str (name r)))),
      email = replace_empty (str_strip (astype_str (email r))),
      role = replace_empty (str_strip (astype_str (role r))),
      start_date = parse_date dp (start_date r),
      active = parse_bool (active r)\<rparr>"

section \<open>Validation\<close>

text \<open>The list \<open>errs\<close> that \<open>row_errors\<close> builds, and its result \<open>";".join(errs)\<close>.\<close>

definition errs :: "row \<Rightarrow> string list" where
  "errs r =
     (if \<not> truthy (id' r) \<or> strip (py_str (id' r)) = [] then [''missing_id''] else []) @
     (if \<not> truthy (name r) then [''missing_name''] else []) @
     (if \<not> truthy (email r) \<or> \<not> email_re_match (py_str (email r))
      then [''invalid_email''] else []) @
     (if \<not> truthy (role r) then [''missing_role''] else []) @
     (if \<not> truthy (start_date r) then [''invalid_start_date''] else []) @
     (if active r = PyNone then [''invalid_active''] else [])"

definition row_errors :: "row \<Rightarrow> string" where
  "row_errors r = join '';'' (errs r)"

text \<open>\<open>df["error"] = df.apply(row_errors, axis=1)\<close>.\<close>

definition add_error :: "row \<Rightarrow> erow" where
  "add_error r = \<lparr>id' = id' r, name = name r, email = email r, role = role r,
                  start_date = start_date r, active = active r, error = row_errors r\<rparr>"

definition with_error :: "frame \<Rightarrow> eframe" where
  "with_error df = map (\<lambda>(i, r). (i, add_error r)) df"

text \<open>\<open>df[df["error"] != ""]\<close> and \<open>df[df["error"] == ""]\<close>.\<close>

definition invalid_part :: "eframe \<Rightarrow> eframe" where
  "invalid_part df = filter (\<lambda>(i, r). error r \<noteq> []) df"

definition valid_part :: "eframe \<Rightarrow> eframe" where
  "valid_part df = filter (\<lambda>(i, r). error r = []) df"

text \<open>
  \<open>drop_duplicates(subset=["id"], keep="first")\<close>: a row is dropped when an earlier row
  has the same \<open>id\<close>.
\<close>

fun drop_dups :: "cell list \<Rightarrow> eframe \<Rightarrow> eframe" where
  "drop_dups seen [] = []"
| "drop_dups seen ((i, r) # df) =
     (if id' r \<in> set seen then drop_dups seen df else (i, r) # drop_dups (id' r # seen) df)"

definition drop_duplicates :: "eframe \<Rightarrow> eframe" where
  "drop_duplicates df = drop_dups [] df"

text \<open>\<open>drop(columns=["error"])\<close>.\<close>

definition drop_error :: "eframe \<Rightarrow> frame" where
  "drop_error df = map (\<lambda>(i, r). (i, row.truncate r)) df"

definition validate_rows :: "frame \<Rightarrow> frame \<times> eframe" where
  "validate_rows df0 =
     (let df = with_error df0;
          invalid = invalid_part df;
          valid = valid_part df;
          valid = drop_duplicates valid
      in (drop_error valid, invalid))"

text \<open>The valid rows before \<open>drop_duplicates\<close>, as \<open>validate_rows\<close> computes them.\<close>

definition valid_before_dedup :: "frame \<Rightarrow> eframe" where
  "valid_before_dedup df0 = valid_part (with_error df0)"

subsection \<open>The objects \<open>validate_rows\<close> writes to\<close>

text \<open>
  A heap of DataFrame objects, addressed by position. \<open>df = df.copy()\<close> allocates a new
  object and rebinds the local name to it; \<open>df["error"] = ...\<close> writes to the object the
  name is bound to. The selections and \<open>drop_duplicates\<close> return new frames.
\<close>

datatype obj = DataFrame frame | ErrFrame eframe

type_synonym heap = "obj list"

definition frame_of :: "obj \<Rightarrow> frame" where
  "frame_of ob = (case ob of DataFrame f \<Rightarrow> f | ErrFrame e \<Rightarrow> drop_error e)"

definition validate_rows_heap :: "heap \<Rightarrow> nat \<Rightarrow> (frame \<times> eframe) \<times> heap" where
  "validate_rows_heap h a =
     (let b = length h;
          h = h @ [h ! a];
          h = h[b := ErrFrame (with_error (frame_of (h ! b)))];
          df = (case h ! b of ErrFrame e \<Rightarrow> e | DataFrame f \<Rightarrow> with_error f);
          invalid = invalid_part df;
          valid = valid_part df;
          valid = drop_duplicates valid
      in ((drop_error valid, invalid), h))"

section \<open>The run\<close>

text \<open>The stages of \<open>main\<close> up to the partition; the writers come after.\<close>

definition main :: "parser \<Rightarrow> csv_file \<Rightarrow> pyexn + (frame \<times> eframe)" where
  "main dp path =
     (case read_csv path of
        Inl e \<Rightarrow> Inl e
      | Inr df \<Rightarrow> Inr (validate_rows (normalize_types dp (normalize_strings (to_frame df)))))"

section \<open>The rule table of the specification\<close>

text \<open>
  The six rules in the order of the table, each with the condition the table gives for
  it, where null is a missing value (\<open>isna\<close>).
\<close>

datatype rule = Missing_id | Missing_name | Invalid_email | Missing_role
  | Invalid_start_date | Invalid_active

definition rule_table :: "rule list" where
  "rule_table = [Missing_id, Missing_name, Invalid_email, Missing_role,
                 Invalid_start_date, Invalid_active]"

fun rule_name :: "rule \<Rightarrow> string" where
  "rule_name Missing_id = ''missing_id''"
| "rule_name Missing_name = ''missing_name''"
| "rule_name Invalid_email = ''invalid_email''"
| "rule_name Missing_role = ''missing_role''"
| "rule_name Invalid_start_date = ''invalid_start_date''"
| "rule_name Invalid_active = ''invalid_active''"

text \<open>
  The pattern in words: one or more characters that are neither \<open>@\<close> nor whitespace,
  \<open>@\<close>, one or more such characters, \<open>.\<close>, one or more such characters, and nothing else.
\<close>

definition email_pattern :: "string set" where
  "email_pattern = {a @ ''@'' @ b @ ''.'' @ c | a b c.
     a \<noteq> [] \<and> b \<noteq> [] \<and> c \<noteq> [] \<and> (\<forall>x \<in> set (a @ b @ c). x \<noteq> CHR ''@'' \<and> \<not> is_space x)}"

fun violated :: "row \<Rightarrow> rule \<Rightarrow> bool" where
  "violated r Missing_id = (isna (id' r) \<or> strip (py_str (id' r)) = [])"
| "violated r Missing_name = isna (name r)"
| "violated r Invalid_email = (isna (email r) \<or> py_str (email r) \<notin> email_pattern)"
| "violated r Missing_role = isna (role r)"
| "violated r Invalid_start_date = isna (start_date r)"
| "violated r Invalid_active = isna (active r)"

section \<open>Example inputs\<close>

text \<open>
  A row as the loader reads it, a date parser that knows the date of that row in two
  spellings, the row after both normalisation stages, and a batch of normalised rows: a
  passing row, a row with a malformed email, and a second passing row with the id of the
  first.
\<close>

definition example_raw :: row where
  "example_raw = \<lparr>id' = PyStr '' 7 '', name = PyStr ''Ann  Lee'', email = PyStr ''a@b.com'',
     role = PyStr ''eng'', start_date = PyStr ''15.05.2023'', active = PyStr ''yes''\<rparr>"

definition example_parser :: parser where
  "example_parser =
     [''15.05.2023'' \<mapsto> \<lparr>year = 2023, month = 5, day = 15, hour = 0, minute = 0, second = 0\<rparr>,
      ''2023-05-15'' \<mapsto> \<lparr>year = 2023, month = 5, day = 15, hour = 0, minute = 0, second = 0\<rparr>]"

definition example_ok :: row where
  "example_ok = \<lparr>id' = PyStr ''7'', name = PyStr ''Ann Lee'', email = PyStr ''a@b.com'',
     role = PyStr ''eng'', start_date = PyStr ''2023-05-15'', active = PyBool True\<rparr>"

definition example_batch :: frame where
  "example_batch = [(0, example_ok), (1, example_ok\<lparr>email := PyStr ''not-an-email''\<rparr>),
     (2, example_ok\<lparr>name := PyStr ''Bob''\<rparr>)]"

text \<open>
  A file whose header lacks the column \<open>role\<close>; and a file with all six columns in the
  header and a second data line of seven fields, on which \<open>pd.read_csv\<close> raises
  \<open>ParserError\<close> (expected 6 fields in line 3, saw 7).
\<close>

definition example_no_role :: csv_file where
  "example_no_role = \<lparr>header = [''id'', ''name'', ''email'', ''start_date'', ''active''],
     content = Inr [\<lambda>c. PyStr ''x'']\<rparr>"

definition example_malformed :: csv_file where
  "example_malformed =
     \<lparr>header = [''id'', ''name'', ''email'', ''role'', ''start_date'', ''active''],
      content = Inl ParserError\<rparr>"

text \<open>
  What \<open>dateparser.parse\<close> with \<open>dayfirst=True\<close> makes of two texts: \<open>10.05.2023\<close> is
  the 10th of May, and \<open>2023-05-10\<close>, year first and both other numbers at most 12, is
  read day first as well, as the 5th of October.
\<close>

definition example_dayfirst :: parser where
  "example_dayfirst =
     [''10.05.2023'' \<mapsto> \<lparr>year = 2023, month = 5, day = 10, hour = 0, minute = 0, second = 0\<rparr>,
      ''2023-05-10'' \<mapsto> \<lparr>year = 2023, month = 10, day = 5, hour = 0, minute = 0, second = 0\<rparr>]"

section \<open>Properties\<close>

subsection \<open>Evaluating the examples\<close>

lemmas eval_strings = is_space_def strip_def lower_def lower_char_def
lemmas eval_email = email_re_match_def EMAIL_RE_def not_at_space_def
lemmas eval_validate = validate_rows_def valid_before_dedup_def with_error_def add_error_def
  valid_part_def invalid_part_def drop_duplicates_def drop_error_def row.defs
  row_errors_def errs_def
lemmas eval_normalize = normalize_types_def normalize_strings_def assign_def astype_str_def
  parse_bool_def parse_date_def isoformat_def zfill_def dec.simps digit_char_def date_of_def
lemmas eval_examples = example_raw_def example_parser_def example_ok_def example_batch_def

lemma example_batch_validated:
  "validate_rows example_batch =
     ([(0, example_ok)],
      [(1, \<lparr>id' = PyStr ''7'', name = PyStr ''Ann Lee'', email = PyStr ''not-an-email'',
            role = PyStr ''eng'', start_date = PyStr ''2023-05-15'', active = PyBool True,
            error = ''invalid_email''\<rparr>)])"
  by (simp add: eval_examples eval_validate eval_email eval_strings)

lemma example_batch_valid_before:
  "map fst (valid_before_dedup example_batch) = [0, 2]"
  by (simp add: eval_examples eval_validate eval_email eval_strings)

subsection \<open>The partition\<close>

lemma length_with_error: "length (with_error df) = length df"
  by (simp add: with_error_def)

lemma drop_error_with_error: "drop_error (with_error df) = df"
  by (induction df) (auto simp: drop_error_def with_error_def add_error_def row.defs)

lemma truncate_add_error: "row.truncate (add_error r) = r"
  by (simp add: add_error_def row.defs)

lemma error_add_error: "error (add_error r) = row_errors r"
  by (simp add: add_error_def)

lemma mset_partition: "mset (valid_part e) + mset (invalid_part e) = mset e"
  by (induction e) (auto simp: valid_part_def invalid_part_def)

lemma length_partition: "length (valid_part e) + length (invalid_part e) = length e"
  by (induction e) (auto simp: valid_part_def invalid_part_def)

lemma drop_error_mset: "mset (drop_error e) = image_mset (\<lambda>(i, r). (i, row.truncate r)) (mset e)"
  by (simp add: drop_error_def)

lemma snd_validate_rows: "snd (validate_rows df) = invalid_part (with_error df)"
  by (simp add: validate_rows_def Let_def)

lemma fst_validate_rows: "fst (validate_rows df) = drop_error (drop_duplicates (valid_before_dedup df))"
  by (simp add: validate_rows_def Let_def valid_before_dedup_def)

lemma in_with_error: "(i, e) \<in> set (with_error df) \<longleftrightarrow> (\<exists>r. (i, r) \<in> set df \<and> e = add_error r)"
  by (auto simp: with_error_def)

lemma index_disjoint:
  assumes d: "distinct (map fst df)"
  shows "fst ` set (valid_part (with_error df)) \<inter> fst ` set (invalid_part (with_error df)) = {}"
proof -
  let ?e = "with_error df"
  have "e = e'" if "(i, e) \<in> set ?e" "(i, e') \<in> set ?e" for i e e'
  proof -
    from that obtain r r' where "(i, r) \<in> set df" "(i, r') \<in> set df"
      "e = add_error r" "e' = add_error r'"
      by (auto simp: in_with_error)
    moreover from this d have "r = r'"
      by (meson eq_key_imp_eq_value)
    ultimately show ?thesis by simp
  qed
  then show ?thesis
    by (fastforce simp: valid_part_def invalid_part_def)
qed

lemma invalid_carries:
  "(i, r) \<in> set (invalid_part (with_error df)) \<Longrightarrow>
     (i, row.truncate r) \<in> set df \<and> error r = row_errors (row.truncate r) \<and> error r \<noteq> []"
  by (auto simp: invalid_part_def in_with_error truncate_add_error error_add_error)

text \<open>
  Claim C1. After validation and before deduplication every row of the input is in
  exactly one of the valid rows and the invalid rows: the two lengths add up to the
  length of the input, the two parts together hold the rows of the input with their
  multiplicities, no row and (with distinct index labels) no index label is in both, and
  every invalid row is a row of the input that carries its own non-empty descriptor.
\<close>

theorem partition_complete:
  "length (valid_before_dedup df) + length (snd (validate_rows df)) = length df
   \<and> mset (drop_error (valid_before_dedup df)) + mset (drop_error (snd (validate_rows df))) = mset df
   \<and> set (valid_before_dedup df) \<inter> set (snd (validate_rows df)) = {}
   \<and> (distinct (map fst df) \<longrightarrow>
        fst ` set (valid_before_dedup df) \<inter> fst ` set (snd (validate_rows df)) = {})
   \<and> (\<forall>(i, r) \<in> set (snd (validate_rows df)).
         (i, row.truncate r) \<in> set df \<and> error r = row_errors (row.truncate r) \<and> error r \<noteq> [])"
proof -
  let ?e = "with_error df"
  have len: "length (valid_part ?e) + length (invalid_part ?e) = length df"
    using length_partition [of ?e] by (simp add: length_with_error)
  have "mset (drop_error (valid_part ?e)) + mset (drop_error (invalid_part ?e))
        = mset (drop_error ?e)"
    unfolding drop_error_mset by (simp flip: image_mset_union add: mset_partition)
  then have ms: "mset (drop_error (valid_part ?e)) + mset (drop_error (invalid_part ?e)) = mset df"
    by (simp add: drop_error_with_error)
  have disj: "set (valid_part ?e) \<inter> set (invalid_part ?e) = {}"
    by (auto simp: valid_part_def invalid_part_def)
  have carry: "\<forall>(i, r) \<in> set (invalid_part ?e).
         (i, row.truncate r) \<in> set df \<and> error r = row_errors (row.truncate r) \<and> error r \<noteq> []"
    using invalid_carries by blast
  show ?thesis
    unfolding snd_validate_rows valid_before_dedup_def
    using len ms disj index_disjoint [of df] carry by blast
qed

theorem partition_complete_witness:
  "distinct (map fst example_batch)
   \<and> length (valid_before_dedup example_batch) + length (snd (validate_rows example_batch))
      = length example_batch
   \<and> mset (drop_error (valid_before_dedup example_batch))
        + mset (drop_error (snd (validate_rows example_batch))) = mset example_batch
   \<and> set (valid_before_dedup example_batch) \<inter> set (snd (validate_rows example_batch)) = {}
   \<and> fst ` set (valid_before_dedup example_batch)
         \<inter> fst ` set (snd (validate_rows example_batch)) = {}
   \<and> (\<exists>(i, r) \<in> set (snd (validate_rows example_batch)).
          (i, row.truncate r) \<in> set example_batch \<and> error r = row_errors (row.truncate r)
          \<and> error r \<noteq> [])"
proof -
  have d: "distinct (map fst example_batch)"
    by (simp add: example_batch_def)
  have "snd (validate_rows example_batch) \<noteq> []"
    by (simp add: example_batch_validated)
  then obtain i r where "(i, r) \<in> set (snd (validate_rows example_batch))"
    by (cases "snd (validate_rows example_batch)") auto
  with d show ?thesis
    using partition_complete [of example_batch] by blast
qed

subsection \<open>Deduplication\<close>

lemma drop_dups_subseq: "subseq (drop_dups seen e) e"
  by (induction seen e rule: drop_dups.induct) (auto intro: subseq_Cons')

lemma drop_dups_ids:
  "distinct (map (id' \<circ> snd) (drop_dups seen e)) \<and>
   (id' \<circ> snd) ` set (drop_dups seen e) \<inter> set seen = {}"
proof (induction seen e rule: drop_dups.induct)
  case (1 seen)
  show ?case by simp
next
  case (2 seen i r df)
  then show ?case by (auto split: if_splits)
qed

text \<open>Every kept row is a first occurrence: no earlier row has its id.\<close>

lemma drop_dups_first:
  "(i, r) \<in> set (drop_dups seen e) \<Longrightarrow>
   \<exists>pre post. e = pre @ (i, r) # post \<and> id' r \<notin> (id' \<circ> snd) ` set pre \<and> id' r \<notin> set seen"
proof (induction seen e rule: drop_dups.induct)
  case (1 seen)
  then show ?case by simp
next
  case (2 seen j q df)
  show ?case
  proof (cases "id' q \<in> set seen")
    case True
    with 2 obtain pre post where
      "df = pre @ (i, r) # post" "id' r \<notin> (id' \<circ> snd) ` set pre" "id' r \<notin> set seen"
      by auto
    with True have "(j, q) # df = ((j, q) # pre) @ (i, r) # post
        \<and> id' r \<notin> (id' \<circ> snd) ` set ((j, q) # pre) \<and> id' r \<notin> set seen"
      by auto
    then show ?thesis by blast
  next
    case False
    show ?thesis
    proof (cases "(i, r) = (j, q)")
      case True
      with False have "(j, q) # df = [] @ (i, r) # df \<and> id' r \<notin> (id' \<circ> snd) ` set []
          \<and> id' r \<notin> set seen"
        by simp
      then show ?thesis by blast
    next
      case neq: False
      with False 2 have "(i, r) \<in> set (drop_dups (id' q # seen) df)" by auto
      with False 2 obtain pre post where
        "df = pre @ (i, r) # post" "id' r \<notin> (id' \<circ> snd) ` set pre" "id' r \<notin> set (id' q # seen)"
        by blast
      then have "(j, q) # df = ((j, q) # pre) @ (i, r) # post
          \<and> id' r \<notin> (id' \<circ> snd) ` set ((j, q) # pre) \<and> id' r \<notin> set seen"
        by auto
      then show ?thesis by blast
    qed
  qed
qed

text \<open>Every id of the input that was not seen before has a kept row.\<close>

lemma drop_dups_covers:
  "(i, r) \<in> set e \<Longrightarrow> id' r \<notin> set seen \<Longrightarrow>
   \<exists>(j, q) \<in> set (drop_dups seen e). id' q = id' r"
proof (induction seen e rule: drop_dups.induct)
  case (1 seen)
  then show ?case by simp
next
  case (2 seen j q df)
  then show ?case
    by (cases "id' q = id' r") (auto split: if_splits)
qed

lemma sorted_first_least:
  fixes e :: eframe
  assumes "sorted_wrt (<) (map fst e)" and "e = pre @ (i, r) # post"
    and "id' r \<notin> (id' \<circ> snd) ` set pre" and "(j, q) \<in> set e" and "id' q = id' r"
  shows "i \<le> j"
proof -
  from assms(2,4) consider "(j, q) \<in> set pre" | "(j, q) = (i, r)" | "(j, q) \<in> set post"
    by auto
  then show ?thesis
  proof cases
    case 1
    with assms(3,5) show ?thesis by force
  next
    case 2
    then show ?thesis by simp
  next
    case 3
    with assms(1,2) have "i < j"
      by (force simp: sorted_wrt_append)
    then show ?thesis by simp
  qed
qed

lemma fst_with_error: "map fst (with_error df) = map fst df"
  by (induction df) (auto simp: with_error_def)

lemma sorted_valid_part:
  "sorted_wrt (<) (map fst df) \<Longrightarrow> sorted_wrt (<) (map fst (valid_before_dedup df))"
proof -
  assume "sorted_wrt (<) (map fst df)"
  then have "sorted_wrt (<) (map fst (with_error df))"
    by (simp add: fst_with_error)
  then have "sorted_wrt (\<lambda>a b. fst a < fst b) (with_error df)"
    by (simp add: sorted_wrt_map)
  then have "sorted_wrt (\<lambda>a b. fst a < fst b) (valid_part (with_error df))"
    unfolding valid_part_def by (rule sorted_wrt_filter)
  then show ?thesis
    by (simp add: sorted_wrt_map valid_before_dedup_def)
qed

lemma in_drop_error: "(i, r) \<in> set (drop_error e) \<longleftrightarrow> (\<exists>q. (i, q) \<in> set e \<and> r = row.truncate q)"
  by (auto simp: drop_error_def)

lemma subseq_drop_error: "subseq a b \<Longrightarrow> subseq (drop_error a) (drop_error b)"
  unfolding drop_error_def by (rule subseq_map)

lemma id_truncate: "id' (row.truncate q) = id' q"
  by (simp add: row.defs)

text \<open>
  Claim C3. With the index labels in increasing order, as the loader numbers the rows:
  the returned valid rows are the valid rows in their input order with rows left out; no
  two of them share an id; for every valid row the returned row with the same id has an
  index label that is not larger, so the row kept for an id is the one with the smallest
  index; and no valid row, kept or dropped, is among the invalid rows.
\<close>

theorem dedup_keeps_first:
  assumes "sorted_wrt (<) (map fst df)"
  shows "subseq (fst (validate_rows df)) (drop_error (valid_before_dedup df))
    \<and> distinct (map (id' \<circ> snd) (fst (validate_rows df)))
    \<and> (\<forall>(i, r) \<in> set (valid_before_dedup df).
         \<exists>(j, q) \<in> set (fst (validate_rows df)). id' q = id' r \<and> j \<le> i)
    \<and> (\<forall>(i, r) \<in> set (valid_before_dedup df). i \<notin> fst ` set (snd (validate_rows df)))"
proof -
  let ?vb = "valid_before_dedup df"
  let ?k = "drop_duplicates ?vb"
  have sub: "subseq (drop_error ?k) (drop_error ?vb)"
    unfolding drop_duplicates_def by (intro subseq_drop_error drop_dups_subseq)
  have "map (id' \<circ> snd) (drop_error ?k) = map (id' \<circ> snd) ?k"
    by (auto simp: drop_error_def id_truncate)
  then have dist: "distinct (map (id' \<circ> snd) (drop_error ?k))"
    using drop_dups_ids [of "[]" ?vb] by (simp add: drop_duplicates_def)
  have srt: "sorted_wrt (<) (map fst ?vb)"
    using assms by (rule sorted_valid_part)
  have least: "\<exists>(j, q) \<in> set (drop_error ?k). id' q = id' r \<and> j \<le> i"
    if "(i, r) \<in> set ?vb" for i r
  proof -
    from drop_dups_covers [OF that, of "[]"] obtain j q where
      jq: "(j, q) \<in> set ?k" "id' q = id' r"
      by (auto simp: drop_duplicates_def)
    from jq(1) have "(j, q) \<in> set (drop_dups [] ?vb)"
      by (simp add: drop_duplicates_def)
    from drop_dups_first [OF this] obtain pre post where
      split: "?vb = pre @ (j, q) # post" and nfirst: "id' q \<notin> (id' \<circ> snd) ` set pre"
      by blast
    have "j \<le> i"
      by (rule sorted_first_least [OF srt split nfirst that jq(2) [symmetric]])
    moreover from jq have "(j, row.truncate q) \<in> set (drop_error ?k)"
      by (auto simp: in_drop_error)
    ultimately have "(j, row.truncate q) \<in> set (drop_error ?k)
        \<and> id' (row.truncate q) = id' r \<and> j \<le> i"
      using jq by (simp add: id_truncate)
    then show ?thesis by blast
  qed
  have "distinct (map fst df)"
    using assms by (simp add: strict_sorted_iff)
  then have "fst ` set ?vb \<inter> fst ` set (snd (validate_rows df)) = {}"
    unfolding snd_validate_rows valid_before_dedup_def by (rule index_disjoint)
  then have excl: "\<forall>(i, r) \<in> set ?vb. i \<notin> fst ` set (snd (validate_rows df))"
    by force
  show ?thesis
    unfolding fst_validate_rows using sub dist least excl by blast
qed

theorem dedup_keeps_first_witness:
  "sorted_wrt (<) (map fst example_batch)
   \<and> subseq (fst (validate_rows example_batch)) (drop_error (valid_before_dedup example_batch))
   \<and> distinct (map (id' \<circ> snd) (fst (validate_rows example_batch)))
   \<and> (\<exists>(i, r) \<in> set (valid_before_dedup example_batch).
         (\<exists>(j, q) \<in> set (fst (validate_rows example_batch)). id' q = id' r \<and> j \<le> i)
         \<and> i \<notin> fst ` set (snd (validate_rows example_batch)))"
proof -
  have s: "sorted_wrt (<) (map fst example_batch)"
    by (simp add: example_batch_def)
  have "map fst (valid_before_dedup example_batch) \<noteq> []"
    by (simp add: example_batch_valid_before)
  then obtain i r where "(i, r) \<in> set (valid_before_dedup example_batch)"
    by (cases "valid_before_dedup example_batch") auto
  with s show ?thesis
    using dedup_keeps_first [OF s] by blast
qed

subsection \<open>The frame of \<open>validate_rows\<close>\<close>

lemma set_drop_dups: "set (drop_dups seen e) \<subseteq> set e"
  by (induction seen e rule: drop_dups.induct) auto

lemma valid_rows_of_input: "set (fst (validate_rows df)) \<subseteq> set df"
proof
  fix x
  assume "x \<in> set (fst (validate_rows df))"
  then have "x \<in> set (drop_error (drop_dups [] (valid_part (with_error df))))"
    by (simp add: fst_validate_rows valid_before_dedup_def drop_duplicates_def)
  then obtain i q where x: "x = (i, row.truncate q)"
    and "(i, q) \<in> set (drop_dups [] (valid_part (with_error df)))"
    by (auto simp: drop_error_def)
  with set_drop_dups have "(i, q) \<in> set (valid_part (with_error df))"
    by blast
  then have "(i, q) \<in> set (with_error df)"
    by (simp add: valid_part_def)
  then obtain r where "(i, r) \<in> set df" "q = add_error r"
    by (auto simp: in_with_error)
  with x show "x \<in> set df"
    by (simp add: truncate_add_error)
qed

lemma validate_rows_heap_result:
  "fst (validate_rows_heap h a) = validate_rows (frame_of (h ! a))"
  by (simp add: validate_rows_heap_def validate_rows_def Let_def nth_append)

lemma validate_rows_heap_store:
  "snd (validate_rows_heap h a) = h @ [ErrFrame (with_error (frame_of (h ! a)))]"
  by (simp add: validate_rows_heap_def Let_def nth_append)

text \<open>
  Claim C10. \<open>validate_rows\<close> writes only to the copy it makes: every object that was on
  the heap before the call, the argument among them, is the same afterwards. What it
  returns is what the function computes from the six columns of its argument; every
  returned valid row is a row of the argument with the same index label and the same six
  values (and has no error field), and every returned invalid row is a row of the
  argument with the same six values, extended by its descriptor.
\<close>

theorem validate_rows_frame:
  assumes "a < length h"
  shows "snd (validate_rows_heap h a) ! a = h ! a
    \<and> take (length h) (snd (validate_rows_heap h a)) = h
    \<and> fst (validate_rows_heap h a) = validate_rows (frame_of (h ! a))
    \<and> set (fst (fst (validate_rows_heap h a))) \<subseteq> set (frame_of (h ! a))
    \<and> (\<forall>(i, r) \<in> set (snd (fst (validate_rows_heap h a))).
          (i, row.truncate r) \<in> set (frame_of (h ! a)) \<and> error r = row_errors (row.truncate r))"
proof -
  have "snd (validate_rows_heap h a) ! a = h ! a"
    using assms by (simp add: validate_rows_heap_store nth_append)
  moreover have "take (length h) (snd (validate_rows_heap h a)) = h"
    by (simp add: validate_rows_heap_store)
  moreover have "set (fst (fst (validate_rows_heap h a))) \<subseteq> set (frame_of (h ! a))"
    unfolding validate_rows_heap_result by (rule valid_rows_of_input)
  moreover have "\<forall>(i, r) \<in> set (snd (fst (validate_rows_heap h a))).
          (i, row.truncate r) \<in> set (frame_of (h ! a)) \<and> error r = row_errors (row.truncate r)"
    unfolding validate_rows_heap_result snd_validate_rows
    using invalid_carries by blast
  ultimately show ?thesis
    using validate_rows_heap_result by blast
qed

theorem validate_rows_frame_witness:
  "(0::nat) < length [DataFrame example_batch]
   \<and> snd (validate_rows_heap [DataFrame example_batch] 0) ! 0 = DataFrame example_batch
   \<and> take 1 (snd (validate_rows_heap [DataFrame example_batch] 0)) = [DataFrame example_batch]
   \<and> fst (validate_rows_heap [DataFrame example_batch] 0) = validate_rows example_batch
   \<and> set (fst (fst (validate_rows_heap [DataFrame example_batch] 0))) \<subseteq> set example_batch
   \<and> (\<exists>(i, r) \<in> set (snd (fst (validate_rows_heap [DataFrame example_batch] 0))).
          (i, row.truncate r) \<in> set example_batch \<and> error r = row_errors (row.truncate r))"
proof -
  let ?h = "[DataFrame example_batch]"
  have l: "(0::nat) < length ?h"
    by simp
  have f: "frame_of (DataFrame example_batch) = example_batch" and n: "?h ! 0 = DataFrame example_batch"
    and k: "length ?h = 1"
    by (simp_all add: frame_of_def)
  have "snd (fst (validate_rows_heap ?h 0)) \<noteq> []"
    by (simp add: validate_rows_heap_result frame_of_def example_batch_validated)
  then obtain i r where "(i, r) \<in> set (snd (fst (validate_rows_heap ?h 0)))"
    by (cases "snd (fst (validate_rows_heap ?h 0))") auto
  then show ?thesis
    using validate_rows_frame [OF l] unfolding n f k by blast
qed

subsection \<open>The loader\<close>

lemma read_csv_cases:
  "read_csv f =
     (case content f of
        Inl e \<Rightarrow> Inl (ReadError e)
      | Inr rows \<Rightarrow>
          if set REQUIRED_COLS \<subseteq> set (header f)
          then Inr \<lparr>columns = header f, body = rows\<rparr>
          else Inl (ValueError (filter (\<lambda>c. c \<notin> set (header f)) REQUIRED_COLS)))"
  by (auto simp: read_csv_def pd_read_csv_def Let_def filter_empty_conv split: sum.splits)

text \<open>
  Claim C7, as the program has it. The loader raises its error with the list of missing
  columns exactly when \<open>pd.read_csv\<close> has read the file as a table and a required column
  is not among the columns of the header; the list holds exactly the required columns that
  are missing. When the file is read as a table with all six columns the loader returns
  that table whatever the cells hold, and whether it fails then does not depend on the
  rows. When \<open>pd.read_csv\<close> raises, the loader fails with that error, whatever the header.
  In every case of failure the run ends with the error, no stage having processed a row.
\<close>

theorem read_csv_schema:
  "((\<exists>m. read_csv f = Inl (ValueError m))
      \<longleftrightarrow> (\<exists>rows. content f = Inr rows) \<and> (\<exists>c \<in> set REQUIRED_COLS. c \<notin> set (header f)))
   \<and> (read_csv f = Inl (ValueError m) \<longrightarrow>
        m \<noteq> [] \<and> set m = set REQUIRED_COLS - set (header f))
   \<and> (content f = Inr rows \<and> set REQUIRED_COLS \<subseteq> set (header f) \<longrightarrow>
        read_csv f = Inr \<lparr>columns = header f, body = rows\<rparr>)
   \<and> isl (read_csv (f\<lparr>content := Inr b\<rparr>)) = isl (read_csv (f\<lparr>content := Inr b'\<rparr>))
   \<and> (content f = Inl e \<longrightarrow> read_csv f = Inl (ReadError e))
   \<and> (read_csv f = Inl x \<longrightarrow> main dp f = Inl x)
   \<and> set REQUIRED_COLS = {''id'', ''name'', ''email'', ''role'', ''start_date'', ''active''}"
proof -
  have 1: "(\<exists>m. read_csv f = Inl (ValueError m))
      \<longleftrightarrow> (\<exists>rows. content f = Inr rows) \<and> (\<exists>c \<in> set REQUIRED_COLS. c \<notin> set (header f))"
    by (cases "content f") (auto simp: read_csv_cases)
  have 2: "m \<noteq> [] \<and> set m = set REQUIRED_COLS - set (header f)"
    if "read_csv f = Inl (ValueError m)"
    using that
    by (cases "content f") (auto simp: read_csv_cases filter_empty_conv split: if_splits)
  have 3: "read_csv f = Inr \<lparr>columns = header f, body = rows\<rparr>"
    if "content f = Inr rows \<and> set REQUIRED_COLS \<subseteq> set (header f)"
    using that by (simp add: read_csv_cases)
  have 4: "isl (read_csv (f\<lparr>content := Inr b\<rparr>)) = isl (read_csv (f\<lparr>content := Inr b'\<rparr>))"
    by (simp add: read_csv_cases)
  have 5: "read_csv f = Inl (ReadError e)" if "content f = Inl e"
    using that by (simp add: read_csv_cases)
  have 6: "main dp f = Inl x" if "read_csv f = Inl x"
    using that by (simp add: main_def)
  have 7: "set REQUIRED_COLS = {''id'', ''name'', ''email'', ''role'', ''start_date'', ''active''}"
    by (simp add: REQUIRED_COLS_def)
  from 1 2 3 4 5 6 7 show ?thesis
    by blast
qed

theorem read_csv_schema_witness:
  "content example_no_role = Inr [\<lambda>c. PyStr ''x'']
   \<and> read_csv example_no_role = Inl (ValueError [''role''])
   \<and> set [''role''] = set REQUIRED_COLS - set (header example_no_role)
   \<and> main example_parser example_no_role = Inl (ValueError [''role''])
   \<and> set REQUIRED_COLS \<subseteq> set (header (example_no_role\<lparr>header := REQUIRED_COLS\<rparr>))
   \<and> read_csv (example_no_role\<lparr>header := REQUIRED_COLS\<rparr>)
       = Inr \<lparr>columns = REQUIRED_COLS, body = [\<lambda>c. PyStr ''x'']\<rparr>
   \<and> content example_malformed = Inl ParserError
   \<and> read_csv example_malformed = Inl (ReadError ParserError)
   \<and> main example_parser example_malformed = Inl (ReadError ParserError)"
proof -
  let ?g = "example_no_role\<lparr>header := REQUIRED_COLS\<rparr>"
  have a: "read_csv example_no_role = Inl (ValueError [''role''])"
    by (simp add: read_csv_def pd_read_csv_def example_no_role_def REQUIRED_COLS_def)
  have b: "content ?g = Inr [\<lambda>c. PyStr ''x''] \<and> set REQUIRED_COLS \<subseteq> set (header ?g)"
    and b': "header ?g = REQUIRED_COLS"
    and c: "content example_no_role = Inr [\<lambda>c. PyStr ''x'']"
    by (simp_all add: example_no_role_def)
  have d: "content example_malformed = Inl ParserError"
    by (simp add: example_malformed_def)
  note t1 = read_csv_schema [of example_no_role "[''role'']" "[\<lambda>c. PyStr ''x'']" _ _ _
      "ValueError [''role'']" example_parser]
  note t2 = read_csv_schema [of ?g _ "[\<lambda>c. PyStr ''x'']"]
  note t3 = read_csv_schema [of example_malformed _ _ _ _ ParserError
      "ReadError ParserError" example_parser]
  from t1 a have "set [''role''] = set REQUIRED_COLS - set (header example_no_role)"
    and "main example_parser example_no_role = Inl (ValueError [''role''])"
    by blast+
  moreover from t2 b have "read_csv ?g = Inr \<lparr>columns = header ?g, body = [\<lambda>c. PyStr ''x'']\<rparr>"
    by blast
  moreover from t3 d have "read_csv example_malformed = Inl (ReadError ParserError)"
    and "main example_parser example_malformed = Inl (ReadError ParserError)"
    by blast+
  ultimately show ?thesis
    using a b c d by (simp only: b' simp_thms)
qed

text \<open>
  With all six columns in the header the loader still fails, and not with its own error:
  the error of \<open>pd.read_csv\<close> on the line of seven fields passes through.
\<close>

theorem read_csv_counterexample:
  "set REQUIRED_COLS \<subseteq> set (header example_malformed)
   \<and> read_csv example_malformed = Inl (ReadError ParserError)
   \<and> \<not> (\<exists>m. read_csv example_malformed = Inl (ValueError m))
   \<and> \<not> (\<exists>t. read_csv example_malformed = Inr t)"
  by (simp add: read_csv_def pd_read_csv_def example_malformed_def REQUIRED_COLS_def)

subsection \<open>Date coercion\<close>

lemma is_digit_digit_char: "k < 10 \<Longrightarrow> is_digit (digit_char k)"
proof -
  assume "k < 10"
  then have "k \<in> {0, 1, 2, 3, 4, 5, 6, 7, 8, 9}" by auto
  then show ?thesis
    by (auto simp: is_digit_def digit_char_def)
qed

lemma dec_digits: "list_all is_digit (dec n)"
proof (induction n rule: dec.induct)
  case (1 n)
  show ?case
  proof (cases "n < 10")
    case True
    then show ?thesis by (simp add: dec.simps [of n] is_digit_digit_char)
  next
    case False
    with 1 show ?thesis by (simp add: dec.simps [of n] is_digit_digit_char)
  qed
qed

lemma length_dec_le: "0 < k \<Longrightarrow> n < 10 ^ k \<Longrightarrow> length (dec n) \<le> k"
proof (induction k arbitrary: n)
  case 0
  then show ?case by simp
next
  case (Suc k)
  show ?case
  proof (cases "n < 10")
    case True
    then show ?thesis by (simp add: dec.simps [of n])
  next
    case False
    with Suc.prems have "0 < k"
      by (cases k) auto
    moreover from Suc.prems have "n div 10 < 10 ^ k"
      by (simp add: less_mult_imp_div_less mult.commute)
    ultimately have "length (dec (n div 10)) \<le> k"
      by (rule Suc.IH)
    with False show ?thesis by (simp add: dec.simps [of n])
  qed
qed

lemma dec_nonempty: "dec n \<noteq> []"
  by (simp add: dec.simps [of n])

lemma zfill_digits: "list_all is_digit (zfill w n)"
proof -
  have "is_digit CHR ''0''"
    by (simp add: is_digit_def)
  then have "list_all is_digit (replicate (w - length (dec n)) CHR ''0'')"
    by (simp add: list_all_iff)
  then show ?thesis
    by (simp add: zfill_def dec_digits)
qed

lemma length_zfill: "0 < w \<Longrightarrow> n < 10 ^ w \<Longrightarrow> length (zfill w n) = w"
  using length_dec_le [of w n] by (simp add: zfill_def)

lemma isoformat_ymd:
  assumes "valid_date d"
  shows "is_ymd (isoformat d)"
proof -
  from assms have "year d < 10 ^ 4" "month d < 10 ^ 2" "day d < 10 ^ 2"
    by (simp_all add: valid_date_def)
  then have l: "length (zfill 4 (year d)) = 4" "length (zfill 2 (month d)) = 2"
    "length (zfill 2 (day d)) = 2"
    by (simp_all add: length_zfill)
  then show ?thesis
    by (simp add: is_ymd_def isoformat_def zfill_digits nth_append)
qed

lemma valid_date_of: "valid_date dt \<Longrightarrow> valid_date (date_of dt)"
  by (simp add: valid_date_def date_of_def)

text \<open>
  Claim C8. \<open>parse_date\<close> returns a value for every cell and every behaviour of the
  parser, raising nothing: \<open>None\<close> when the cell is missing or its text is empty after
  trimming, \<open>None\<close> when the parser raises, and otherwise the ISO rendering of the date of
  the parsed datetime, the time of day left out; that rendering has the shape
  \<open>YYYY-MM-DD\<close> for every datetime Python can represent.
\<close>

theorem parse_date_total:
  "(isna x \<or> strip (py_str x) = [] \<longrightarrow> parse_date dp x = PyNone)
   \<and> (\<not> isna x \<and> strip (py_str x) \<noteq> [] \<and> dp (py_str x) = None \<longrightarrow> parse_date dp x = PyNone)
   \<and> (\<not> isna x \<and> strip (py_str x) \<noteq> [] \<and> dp (py_str x) = Some dt \<longrightarrow>
        parse_date dp x = PyStr (isoformat (date_of dt))
        \<and> date_of (dt\<lparr>hour := hh, minute := mm, second := ss\<rparr>) = date_of dt
        \<and> (valid_date dt \<longrightarrow> is_ymd (isoformat (date_of dt))))
   \<and> (parse_date dp x = PyNone
        \<or> (\<exists>t. dp (py_str x) = Some t \<and> parse_date dp x = PyStr (isoformat (date_of t))))"
proof -
  have "is_ymd (isoformat (date_of dt))" if "valid_date dt"
    using that by (intro isoformat_ymd valid_date_of)
  moreover have "date_of (dt\<lparr>hour := hh, minute := mm, second := ss\<rparr>) = date_of dt"
    by (simp add: date_of_def)
  ultimately show ?thesis
    by (auto simp: parse_date_def split: option.splits)
qed

theorem parse_date_total_witness:
  "parse_date example_parser PyNaN = PyNone
   \<and> parse_date example_parser (PyStr ''  '') = PyNone
   \<and> parse_date example_parser (PyStr ''soon'') = PyNone
   \<and> parse_date example_parser (PyStr ''15.05.2023'') = PyStr ''2023-05-15''
   \<and> is_ymd ''2023-05-15''"
proof -
  let ?dt = "\<lparr>year = 2023, month = 5, day = 15, hour = 0, minute = 0, second = 0\<rparr>"
  have s: "strip ''  '' = []" "strip ''soon'' \<noteq> []" "strip ''15.05.2023'' \<noteq> []"
    by (simp_all add: eval_strings)
  have p: "example_parser ''soon'' = None" "example_parser ''15.05.2023'' = Some ?dt"
    by (simp_all add: example_parser_def)
  have v: "valid_date ?dt"
    by (simp add: valid_date_def)
  have i: "isoformat (date_of ?dt) = ''2023-05-15''"
    by (simp add: isoformat_def zfill_def dec.simps digit_char_def date_of_def)
  show ?thesis
    using parse_date_total [of PyNaN example_parser]
      parse_date_total [of "PyStr ''  ''" example_parser]
      parse_date_total [of "PyStr ''soon''" example_parser]
      parse_date_total [of "PyStr ''15.05.2023''" example_parser ?dt]
      s p v i
    by simp
qed

subsection \<open>Trimming and collapsing\<close>

lemma strip_Nil [simp]: "strip [] = []"
  by (simp add: strip_def)

lemma strip_nil_iff: "strip s = [] \<longleftrightarrow> (\<forall>c \<in> set s. is_space c)"
proof -
  let ?d = "dropWhile is_space s"
  have a: "strip s = [] \<longleftrightarrow> (\<forall>x \<in> set ?d. is_space x)"
    by (simp add: strip_def)
  have b: "?d = []" if "\<forall>x \<in> set ?d. is_space x"
  proof (rule ccontr)
    assume ne: "?d \<noteq> []"
    then have "\<not> is_space (hd ?d)"
      by (rule hd_dropWhile)
    moreover from ne have "hd ?d \<in> set ?d"
      by (rule hd_in_set)
    ultimately show False
      using that by blast
  qed
  have c: "?d = [] \<longleftrightarrow> (\<forall>c \<in> set s. is_space c)"
    by (rule dropWhile_eq_Nil_conv)
  have "(\<forall>x \<in> set ?d. is_space x) \<longleftrightarrow> ?d = []"
    using b by (metis empty_iff list.set(1))
  with a c show ?thesis
    by (simp only:)
qed

lemma strip_fixed:
  assumes "s \<noteq> []" and "\<not> is_space (hd s)" and "\<not> is_space (last s)"
  shows "strip s = s"
proof -
  from assms have "dropWhile is_space s = s"
    by (cases s) auto
  moreover from assms have "dropWhile is_space (rev s) = rev s"
    by (cases "rev s") (auto simp: last_rev [symmetric] simp del: last_rev)
  ultimately show ?thesis
    by (simp add: strip_def)
qed

lemma strip_ends:
  assumes "strip s \<noteq> []"
  shows "\<not> is_space (hd (strip s))" and "\<not> is_space (last (strip s))"
proof -
  let ?d = "dropWhile is_space s"
  let ?e = "dropWhile is_space (rev ?d)"
  from assms have e: "?e \<noteq> []"
    by (simp add: strip_def del: dropWhile_eq_Nil_conv)
  have d: "?d \<noteq> []"
  proof
    assume "?d = []"
    then have "?e = []" by (simp only: rev.simps dropWhile.simps)
    with e show False by (simp only:)
  qed
  from e have "\<not> is_space (hd ?e)"
    by (rule hd_dropWhile)
  then show "\<not> is_space (last (strip s))"
    using e by (simp add: strip_def last_rev)
  from d have nd: "\<not> is_space (hd ?d)"
    by (rule hd_dropWhile)
  obtain pre where "rev ?d = pre @ ?e"
    by (metis takeWhile_dropWhile_id)
  then have "?d = rev ?e @ rev pre"
    by (metis rev_append rev_rev_ident)
  moreover from e have "rev ?e \<noteq> []" by simp
  ultimately have "hd ?d = hd (rev ?e)"
    by (metis hd_append2)
  with nd show "\<not> is_space (hd (strip s))"
    by (simp add: strip_def)
qed

lemma strip_idem: "strip (strip s) = strip s"
proof (cases "strip s = []")
  case True
  then show ?thesis by simp
next
  case False
  show ?thesis
    by (rule strip_fixed [OF False strip_ends(1) [OF False] strip_ends(2) [OF False]])
qed

lemma collapse_nil_iff [simp]: "collapse s = [] \<longleftrightarrow> s = []"
  by (cases s rule: collapse.cases) simp_all

lemma collapse_Cons:
  "\<not> (is_space c \<and> t \<noteq> [] \<and> is_space (hd t)) \<Longrightarrow> collapse (c # t) = c # collapse t"
  by (cases t) auto

lemma hd_collapse: "s \<noteq> [] \<Longrightarrow> \<not> is_space (hd s) \<Longrightarrow> hd (collapse s) = hd s"
  by (induction s rule: collapse.induct) auto

lemma last_dropWhile: "dropWhile P s \<noteq> [] \<Longrightarrow> last (dropWhile P s) = last s"
  by (induction s) (auto split: if_splits)

lemma last_collapse: "s \<noteq> [] \<Longrightarrow> \<not> is_space (last s) \<Longrightarrow> last (collapse s) = last s"
proof (induction s rule: collapse.induct)
  case 1
  then show ?case by simp
next
  case (2 c)
  then show ?case by simp
next
  case (3 c d cs)
  show ?case
  proof (cases "is_space c \<and> is_space d")
    case True
    let ?r = "dropWhile is_space cs"
    from 3 True have "cs \<noteq> []" and lc: "\<not> is_space (last cs)"
      by (auto split: if_splits)
    then have "last cs \<in> set cs"
      by simp
    with lc have ne: "?r \<noteq> []"
      by auto
    then have l: "last ?r = last cs"
      by (rule last_dropWhile)
    with lc ne True have "last (collapse ?r) = last ?r"
      by (intro "3.IH"(1)) simp_all
    moreover from ne have "collapse ?r \<noteq> []"
      by (simp del: dropWhile_eq_Nil_conv)
    ultimately have "last (CHR '' '' # collapse ?r) = last cs"
      using l by (metis last_ConsR)
    moreover from True have "collapse (c # d # cs) = CHR '' '' # collapse ?r"
      by simp
    moreover from \<open>cs \<noteq> []\<close> have "last (c # d # cs) = last cs"
      by simp
    ultimately show ?thesis by (simp only:)
  next
    case False
    with 3 show ?thesis by auto
  qed
qed

lemma collapse_idem: "collapse (collapse s) = collapse s"
proof (induction s rule: collapse.induct)
  case 1
  show ?case by simp
next
  case (2 c)
  show ?case by simp
next
  case (3 c d cs)
  show ?case
  proof (cases "is_space c \<and> is_space d")
    case True
    let ?t = "collapse (dropWhile is_space cs)"
    have "\<not> (?t \<noteq> [] \<and> is_space (hd ?t))"
    proof
      assume a: "?t \<noteq> [] \<and> is_space (hd ?t)"
      then have ne: "dropWhile is_space cs \<noteq> []" by simp
      then have "\<not> is_space (hd (dropWhile is_space cs))"
        by (rule hd_dropWhile)
      with ne a show False by (simp add: hd_collapse)
    qed
    then have "collapse (CHR '' '' # ?t) = CHR '' '' # collapse ?t"
      by (intro collapse_Cons) simp
    with True 3 show ?thesis by simp
  next
    case False
    let ?t = "collapse (d # cs)"
    have "\<not> (is_space c \<and> ?t \<noteq> [] \<and> is_space (hd ?t))"
    proof
      assume a: "is_space c \<and> ?t \<noteq> [] \<and> is_space (hd ?t)"
      with False have "\<not> is_space d" by simp
      then have "hd ?t = d"
        using hd_collapse [of "d # cs"] by simp
      with a \<open>\<not> is_space d\<close> show False by simp
    qed
    then have "collapse (c # ?t) = c # collapse ?t"
      by (rule collapse_Cons)
    moreover from False have "collapse (c # d # cs) = c # ?t"
      by auto
    moreover from False have "collapse ?t = ?t"
      by (intro "3.IH"(2))
    ultimately show ?thesis by simp
  qed
qed

lemma strip_collapse:
  assumes "strip s \<noteq> []"
  shows "strip (collapse (strip s)) = collapse (strip s)"
proof (rule strip_fixed)
  show "collapse (strip s) \<noteq> []"
    using assms by simp
  show "\<not> is_space (hd (collapse (strip s)))"
    using assms strip_ends(1) [OF assms] by (simp add: hd_collapse)
  show "\<not> is_space (last (collapse (strip s)))"
    using assms strip_ends(2) [OF assms] by (simp add: last_collapse)
qed

subsection \<open>The normalised row\<close>

lemma normalize_rows:
  "normalize_types dp (normalize_strings df) = map (\<lambda>(i, r). (i, normalize_row dp r)) df"
  by (induction df) (auto simp: normalize_types_def normalize_strings_def assign_def normalize_row_def)

lemma in_normalized:
  "(i, r) \<in> set (normalize_types dp (normalize_strings df))
     \<longleftrightarrow> (\<exists>r0. (i, r0) \<in> set df \<and> r = normalize_row dp r0)"
  by (auto simp: normalize_rows)

lemma parse_bool_shape: "parse_bool c = PyNone \<or> (\<exists>b. parse_bool c = PyBool b)"
  unfolding parse_bool_def Let_def by (metis (full_types))

lemma isoformat_nonempty: "isoformat d \<noteq> []"
  by (simp add: isoformat_def)

lemma isoformat_strip: "strip (isoformat d) \<noteq> []"
proof -
  have "CHR ''-'' \<in> set (isoformat d)" and "\<not> is_space CHR ''-''"
    by (simp_all add: isoformat_def is_space_def)
  then show ?thesis
    unfolding strip_nil_iff by blast
qed

lemma parse_date_shape:
  "parse_date dp c = PyNone \<or> (\<exists>d. parse_date dp c = PyStr (isoformat d))"
  by (auto simp: parse_date_def split: option.splits)

lemma stripped_strip: "strip s \<noteq> [] \<Longrightarrow> stripped (strip s)"
  by (simp add: stripped_def strip_ends)

lemma stripped_collapse: "stripped t \<Longrightarrow> stripped (collapse t)"
  by (simp add: stripped_def hd_collapse last_collapse)

lemma stripped_fixed: "stripped t \<Longrightarrow> strip t = t"
  by (simp add: stripped_def strip_fixed)

lemma normalized_shape:
  assumes "r = normalize_row dp r0"
  shows "\<exists>t. id' r = PyStr t \<and> strip t = t"
    and "name r = PyNone \<or> (\<exists>t. name r = PyStr t \<and> stripped t \<and> collapse t = t)"
    and "email r = PyNone \<or> (\<exists>t. email r = PyStr t \<and> stripped t)"
    and "role r = PyNone \<or> (\<exists>t. role r = PyStr t \<and> stripped t)"
    and "start_date r = PyNone \<or> (\<exists>d. start_date r = PyStr (isoformat d))"
    and "active r = PyNone \<or> (\<exists>b. active r = PyBool b)"
proof -
  show "\<exists>t. id' r = PyStr t \<and> strip t = t"
    using assms by (simp add: normalize_row_def astype_str_def strip_idem)
  show "name r = PyNone \<or> (\<exists>t. name r = PyStr t \<and> stripped t \<and> collapse t = t)"
    using assms
    by (simp add: normalize_row_def astype_str_def stripped_strip stripped_collapse collapse_idem)
  show "email r = PyNone \<or> (\<exists>t. email r = PyStr t \<and> stripped t)"
    using assms by (simp add: normalize_row_def astype_str_def stripped_strip)
  show "role r = PyNone \<or> (\<exists>t. role r = PyStr t \<and> stripped t)"
    using assms by (simp add: normalize_row_def astype_str_def stripped_strip)
  show "start_date r = PyNone \<or> (\<exists>d. start_date r = PyStr (isoformat d))"
    using assms parse_date_shape [of dp "start_date r0"] by (simp add: normalize_row_def)
  show "active r = PyNone \<or> (\<exists>b. active r = PyBool b)"
    using assms parse_bool_shape [of "active r0"] by (simp add: normalize_row_def)
qed

subsection \<open>The email pattern\<close>

lemma matches_One:
  "matches (One p # r) s \<longleftrightarrow> (\<exists>c t. s = c # t \<and> p c \<and> matches r t)"
  by (cases s) auto

lemma matches_Many:
  "matches (Many p # r) s \<longleftrightarrow>
     (\<exists>u t. s = u @ t \<and> u \<noteq> [] \<and> (\<forall>c \<in> set u. p c) \<and> matches r t)"
proof (induction s)
  case Nil
  show ?case by simp
next
  case (Cons c s)
  show ?case
  proof
    assume "matches (Many p # r) (c # s)"
    then have pc: "p c" and alt: "matches (Many p # r) s \<or> matches r s"
      by simp_all
    from alt show "\<exists>u t. c # s = u @ t \<and> u \<noteq> [] \<and> (\<forall>c \<in> set u. p c) \<and> matches r t"
    proof
      assume "matches (Many p # r) s"
      with Cons obtain u t where "s = u @ t" "u \<noteq> []" "\<forall>c \<in> set u. p c" "matches r t"
        by blast
      with pc have "c # s = (c # u) @ t \<and> c # u \<noteq> [] \<and> (\<forall>x \<in> set (c # u). p x) \<and> matches r t"
        by simp
      then show ?thesis by blast
    next
      assume "matches r s"
      with pc have "c # s = [c] @ s \<and> [c] \<noteq> [] \<and> (\<forall>x \<in> set [c]. p x) \<and> matches r s"
        by simp
      then show ?thesis by blast
    qed
  next
    assume "\<exists>u t. c # s = u @ t \<and> u \<noteq> [] \<and> (\<forall>c \<in> set u. p c) \<and> matches r t"
    then obtain u t where ut: "c # s = u @ t" "u \<noteq> []" "\<forall>c \<in> set u. p c" "matches r t"
      by blast
    then obtain u' where u: "u = c # u'" and s: "s = u' @ t"
      by (cases u) auto
    show "matches (Many p # r) (c # s)"
    proof (cases "u' = []")
      case True
      with ut u s show ?thesis by simp
    next
      case False
      with ut u s have "matches (Many p # r) s"
        unfolding Cons by auto
      with ut u show ?thesis by simp
    qed
  qed
qed

lemma matches_ManyE:
  assumes "matches (Many p # r) s"
  obtains u t where "s = u @ t" and "u \<noteq> []" and "\<forall>c \<in> set u. p c" and "matches r t"
  using assms matches_Many [of p r s] by blast

lemma matches_ManyI:
  assumes "u \<noteq> []" and "\<forall>c \<in> set u. p c" and "matches r t"
  shows "matches (Many p # r) (u @ t)"
  using assms matches_Many [of p r "u @ t"] by blast

lemma matches_OneE:
  assumes "matches (One p # r) s"
  obtains c t where "s = c # t" and "p c" and "matches r t"
  using assms by (cases s) auto

lemma matches_EMAIL_RE: "matches EMAIL_RE s \<longleftrightarrow> s \<in> email_pattern"
proof
  assume "matches EMAIL_RE s"
  then have "matches (Many not_at_space # [One (\<lambda>c. c = CHR ''@''), Many not_at_space,
               One (\<lambda>c. c = CHR ''.''), Many not_at_space]) s"
    by (simp only: EMAIL_RE_def)
  then obtain a t1 where 1: "s = a @ t1" "a \<noteq> []" "\<forall>c \<in> set a. not_at_space c"
      and m1: "matches (One (\<lambda>c. c = CHR ''@'') # [Many not_at_space,
               One (\<lambda>c. c = CHR ''.''), Many not_at_space]) t1"
    by (rule matches_ManyE)
  from m1 obtain x t2 where 2: "t1 = x # t2" "x = CHR ''@''"
      and m2: "matches (Many not_at_space # [One (\<lambda>c. c = CHR ''.''), Many not_at_space]) t2"
    by (rule matches_OneE)
  from m2 obtain b t3 where 3: "t2 = b @ t3" "b \<noteq> []" "\<forall>c \<in> set b. not_at_space c"
      and m3: "matches (One (\<lambda>c. c = CHR ''.'') # [Many not_at_space]) t3"
    by (rule matches_ManyE)
  from m3 obtain y t4 where 4: "t3 = y # t4" "y = CHR ''.''"
      and m4: "matches (Many not_at_space # []) t4"
    by (rule matches_OneE)
  from m4 obtain c t5 where 5: "t4 = c @ t5" "c \<noteq> []" "\<forall>x \<in> set c. not_at_space x"
      and m5: "matches [] t5"
    by (rule matches_ManyE)
  from m5 have 6: "t5 = []" by simp
  have k: "\<forall>x \<in> set (a @ b @ c). not_at_space x"
    using 1(3) 3(3) 5(3) by (simp only: set_append ball_Un)
  have "s = a @ ''@'' @ b @ ''.'' @ c"
    by (simp only: 1(1) 2 3(1) 4 5(1) 6 append_Nil2 append_Cons append_Nil)
  moreover from k have "\<forall>x \<in> set (a @ b @ c). x \<noteq> CHR ''@'' \<and> \<not> is_space x"
    by (simp only: not_at_space_def)
  ultimately have "\<exists>a' b' c'. s = a' @ ''@'' @ b' @ ''.'' @ c' \<and> a' \<noteq> [] \<and> b' \<noteq> []
      \<and> c' \<noteq> [] \<and> (\<forall>x \<in> set (a' @ b' @ c'). x \<noteq> CHR ''@'' \<and> \<not> is_space x)"
    using 1(2) 3(2) 5(2) by (intro exI [of _ a] exI [of _ b] exI [of _ c] conjI)
  then show "s \<in> email_pattern"
    by (simp only: email_pattern_def mem_Collect_eq)
next
  assume "s \<in> email_pattern"
  then have "\<exists>a b c. s = a @ ''@'' @ b @ ''.'' @ c \<and> a \<noteq> [] \<and> b \<noteq> [] \<and> c \<noteq> []
      \<and> (\<forall>x \<in> set (a @ b @ c). x \<noteq> CHR ''@'' \<and> \<not> is_space x)"
    by (simp only: email_pattern_def mem_Collect_eq)
  then obtain a b c where s: "s = a @ ''@'' @ b @ ''.'' @ c" and ne: "a \<noteq> []" "b \<noteq> []" "c \<noteq> []"
    and cl: "\<forall>x \<in> set (a @ b @ c). x \<noteq> CHR ''@'' \<and> \<not> is_space x"
    by (elim exE conjE)
  from cl have ka: "\<forall>x \<in> set a. not_at_space x" and kb: "\<forall>x \<in> set b. not_at_space x"
    and kc: "\<forall>x \<in> set c. not_at_space x"
    by (auto simp: not_at_space_def)
  have "matches [] []"
    by simp
  with ne(3) kc have "matches (Many not_at_space # []) (c @ [])"
    by (rule matches_ManyI)
  then have "matches (One (\<lambda>c. c = CHR ''.'') # [Many not_at_space]) (CHR ''.'' # c)"
    by simp
  with ne(2) kb have "matches (Many not_at_space # [One (\<lambda>c. c = CHR ''.''), Many not_at_space])
      (b @ CHR ''.'' # c)"
    by (rule matches_ManyI)
  then have "matches (One (\<lambda>c. c = CHR ''@'') # [Many not_at_space, One (\<lambda>c. c = CHR ''.''),
      Many not_at_space]) (CHR ''@'' # b @ CHR ''.'' # c)"
    by simp
  with ne(1) ka have "matches (Many not_at_space # [One (\<lambda>c. c = CHR ''@''), Many not_at_space,
      One (\<lambda>c. c = CHR ''.''), Many not_at_space]) (a @ CHR ''@'' # b @ CHR ''.'' # c)"
    by (rule matches_ManyI)
  then show "matches EMAIL_RE s"
    by (simp add: EMAIL_RE_def s)
qed

lemma email_re_match_stripped:
  assumes "stripped t"
  shows "email_re_match t \<longleftrightarrow> t \<in> email_pattern"
proof -
  have "is_space (CHR 0x0A)"
    by (simp add: is_space_def)
  with assms have "last t \<noteq> CHR 0x0A"
    by (auto simp: stripped_def)
  then show ?thesis
    by (simp add: email_re_match_def matches_EMAIL_RE)
qed

subsection \<open>The descriptor\<close>

lemma join_nil_iff: "\<forall>x \<in> set xs. x \<noteq> [] \<Longrightarrow> join sep xs = [] \<longleftrightarrow> xs = []"
  by (induction sep xs rule: join.induct) auto

lemma errs_nonempty: "\<forall>x \<in> set (errs r). x \<noteq> []"
  by (auto simp: errs_def split: if_splits)

lemma row_errors_nil: "row_errors r = [] \<longleftrightarrow> errs r = []"
  unfolding row_errors_def by (rule join_nil_iff [OF errs_nonempty])

text \<open>On a normalised row every condition of the program is the condition of the table.\<close>

lemma conditions_table:
  assumes "r = normalize_row dp r0"
  shows "(\<not> truthy (id' r) \<or> strip (py_str (id' r)) = []) = violated r Missing_id"
    and "(\<not> truthy (name r)) = violated r Missing_name"
    and "(\<not> truthy (email r) \<or> \<not> email_re_match (py_str (email r))) = violated r Invalid_email"
    and "(\<not> truthy (role r)) = violated r Missing_role"
    and "(\<not> truthy (start_date r)) = violated r Invalid_start_date"
    and "(active r = PyNone) = violated r Invalid_active"
proof -
  note sh = normalized_shape [OF assms]
  from sh(1) show "(\<not> truthy (id' r) \<or> strip (py_str (id' r)) = []) = violated r Missing_id"
    by auto
  from sh(2) show "(\<not> truthy (name r)) = violated r Missing_name"
    by (auto simp: stripped_def)
  from sh(3) show "(\<not> truthy (email r) \<or> \<not> email_re_match (py_str (email r)))
      = violated r Invalid_email"
    by (auto simp: email_re_match_stripped) (auto simp: stripped_def)
  from sh(4) show "(\<not> truthy (role r)) = violated r Missing_role"
    by (auto simp: stripped_def)
  from sh(5) show "(\<not> truthy (start_date r)) = violated r Invalid_start_date"
    by (auto simp: isoformat_nonempty)
  from sh(6) show "(active r = PyNone) = violated r Invalid_active"
    by auto
qed

lemma errs_table:
  assumes "r = normalize_row dp r0"
  shows "errs r = map rule_name (filter (violated r) rule_table)"
  unfolding errs_def conditions_table [OF assms] rule_table_def by simp

lemma all_rules: "(\<forall>ru. P ru) \<longleftrightarrow> (\<forall>ru \<in> set rule_table. P ru)"
proof -
  have "ru \<in> set rule_table" for ru
    by (cases ru) (simp_all add: rule_table_def)
  then show ?thesis by blast
qed

lemma in_valid_before:
  "(i, e) \<in> set (valid_before_dedup df) \<longleftrightarrow>
     (\<exists>r. (i, r) \<in> set df \<and> e = add_error r \<and> row_errors r = [])"
  by (auto simp: valid_before_dedup_def valid_part_def in_with_error error_add_error)

lemma add_error_inject: "add_error r = add_error q \<longleftrightarrow> r = q"
  by (metis truncate_add_error)

text \<open>
  Claim C4. For every row that the two normalisation stages produce, the descriptor is
  the names of the violated rules of the table, in the order of the table, joined by
  semicolons; the descriptor is empty exactly when no rule of the table is violated; and
  the row is among the valid rows exactly when its descriptor is empty.
\<close>

theorem descriptor_order:
  assumes "(i, r) \<in> set (normalize_types dp (normalize_strings df))"
  shows "row_errors r = join '';'' (map rule_name (filter (violated r) rule_table))
    \<and> map rule_name rule_table = [''missing_id'', ''missing_name'', ''invalid_email'',
         ''missing_role'', ''invalid_start_date'', ''invalid_active'']
    \<and> (row_errors r = [] \<longleftrightarrow> (\<forall>ru. \<not> violated r ru))
    \<and> ((i, add_error r) \<in> set (valid_before_dedup (normalize_types dp (normalize_strings df)))
         \<longleftrightarrow> row_errors r = [])"
proof -
  from assms obtain r0 where r: "r = normalize_row dp r0"
    by (auto simp: in_normalized)
  have a: "row_errors r = join '';'' (map rule_name (filter (violated r) rule_table))"
    by (simp only: row_errors_def errs_table [OF r])
  have b: "map rule_name rule_table = [''missing_id'', ''missing_name'', ''invalid_email'',
         ''missing_role'', ''invalid_start_date'', ''invalid_active'']"
    by (simp add: rule_table_def)
  have "row_errors r = [] \<longleftrightarrow> filter (violated r) rule_table = []"
    by (simp add: row_errors_nil errs_table [OF r])
  also have "\<dots> \<longleftrightarrow> (\<forall>ru \<in> set rule_table. \<not> violated r ru)"
    by (simp add: filter_empty_conv)
  also have "\<dots> \<longleftrightarrow> (\<forall>ru. \<not> violated r ru)"
    by (rule all_rules [symmetric])
  finally have c: "row_errors r = [] \<longleftrightarrow> (\<forall>ru. \<not> violated r ru)" .
  have d: "(i, add_error r) \<in> set (valid_before_dedup (normalize_types dp (normalize_strings df)))
         \<longleftrightarrow> row_errors r = []"
    using assms by (auto simp: in_valid_before add_error_inject)
  from a b c d show ?thesis by blast
qed

lemma example_raw_normalized:
  "normalize_types example_parser (normalize_strings [(0, example_raw)]) = [(0, example_ok)]"
  by (simp add: eval_examples eval_normalize eval_strings)

lemma example_two_violations:
  "normalize_types example_parser (normalize_strings
     [(0, example_raw\<lparr>email := PyStr ''not-an-email'', active := PyStr ''maybe''\<rparr>)])
   = [(0, example_ok\<lparr>email := PyStr ''not-an-email'', active := PyNone\<rparr>)]"
  by (simp add: eval_examples eval_normalize eval_strings)

lemma example_two_violations_errors:
  "row_errors (example_ok\<lparr>email := PyStr ''not-an-email'', active := PyNone\<rparr>)
     = ''invalid_email;invalid_active''"
  by (simp add: eval_examples row_errors_def errs_def eval_email eval_strings)

theorem descriptor_order_witness:
  "(0, example_ok\<lparr>email := PyStr ''not-an-email'', active := PyNone\<rparr>)
     \<in> set (normalize_types example_parser (normalize_strings
          [(0, example_raw\<lparr>email := PyStr ''not-an-email'', active := PyStr ''maybe''\<rparr>)]))
   \<and> row_errors (example_ok\<lparr>email := PyStr ''not-an-email'', active := PyNone\<rparr>)
       = join '';'' (map rule_name (filter
           (violated (example_ok\<lparr>email := PyStr ''not-an-email'', active := PyNone\<rparr>)) rule_table))
   \<and> row_errors (example_ok\<lparr>email := PyStr ''not-an-email'', active := PyNone\<rparr>)
       = ''invalid_email;invalid_active''
   \<and> (\<exists>ru. violated (example_ok\<lparr>email := PyStr ''not-an-email'', active := PyNone\<rparr>) ru)"
proof -
  let ?r = "example_ok\<lparr>email := PyStr ''not-an-email'', active := PyNone\<rparr>"
  let ?df = "[(0, example_raw\<lparr>email := PyStr ''not-an-email'', active := PyStr ''maybe''\<rparr>)]"
  have m: "(0, ?r) \<in> set (normalize_types example_parser (normalize_strings ?df))"
    by (simp only: example_two_violations list.set(2) insertI1)
  note t = descriptor_order [OF m]
  have "row_errors ?r \<noteq> []"
    by (simp only: example_two_violations_errors) simp
  with t have "\<exists>ru. violated ?r ru"
    by blast
  with m t example_two_violations_errors show ?thesis
    by blast
qed

subsection \<open>Single rows\<close>

lemma normalize_single:
  "normalize_types dp (normalize_strings [(i, r0)]) = [(i, normalize_row dp r0)]"
  by (simp add: normalize_rows)

lemma validate_single_invalid:
  "row_errors q \<noteq> [] \<Longrightarrow> validate_rows [(i, q)] = ([], [(i, add_error q)])"
  by (simp add: validate_rows_def with_error_def valid_part_def invalid_part_def
      drop_duplicates_def drop_error_def error_add_error)

lemma normalize_row_email:
  "normalize_row dp (r0\<lparr>email := PyStr ''not-an-email''\<rparr>)
     = (normalize_row dp r0)\<lparr>email := PyStr ''not-an-email''\<rparr>"
  by (simp add: normalize_row_def astype_str_def eval_strings)

lemma errs_email_only:
  assumes "errs r = []"
  shows "errs (r\<lparr>email := PyStr ''not-an-email''\<rparr>) = [''invalid_email'']"
proof -
  have "\<not> email_re_match ''not-an-email''"
    by (simp add: eval_email eval_strings)
  with assms show ?thesis
    by (simp add: errs_def split: if_splits)
qed

lemma invalid_email_in_errs:
  "''invalid_email'' \<in> set (errs r)
     \<longleftrightarrow> (\<not> truthy (email r) \<or> \<not> email_re_match (py_str (email r)))"
  by (simp add: errs_def)

text \<open>
  Claim C9. On the row the two normalisation stages make of any input row, the
  descriptor lists \<open>invalid_email\<close> exactly when the email is null or is not, as a whole
  string, of the pattern of the table. And when that row passes every rule, the same
  input row with the email \<open>not-an-email\<close> is returned as the one invalid row, with the
  descriptor \<open>invalid_email\<close> and its other fields as before.
\<close>

theorem invalid_email_rule:
  assumes "normalize_types dp (normalize_strings [(i, r0)]) = [(i, r)]"
  shows "(''invalid_email'' \<in> set (errs r)
            \<longleftrightarrow> isna (email r) \<or> py_str (email r) \<notin> email_pattern)
    \<and> (row_errors r = [] \<longrightarrow>
          validate_rows (normalize_types dp (normalize_strings
              [(i, r0\<lparr>email := PyStr ''not-an-email''\<rparr>)]))
            = ([], [(i, add_error (r\<lparr>email := PyStr ''not-an-email''\<rparr>))])
          \<and> error (add_error (r\<lparr>email := PyStr ''not-an-email''\<rparr>)) = ''invalid_email'')"
proof -
  from assms have r: "r = normalize_row dp r0"
    by (simp add: normalize_single)
  have a: "''invalid_email'' \<in> set (errs r)
            \<longleftrightarrow> isna (email r) \<or> py_str (email r) \<notin> email_pattern"
    unfolding invalid_email_in_errs conditions_table(3) [OF r] by simp
  have b: "validate_rows (normalize_types dp (normalize_strings
              [(i, r0\<lparr>email := PyStr ''not-an-email''\<rparr>)]))
            = ([], [(i, add_error (r\<lparr>email := PyStr ''not-an-email''\<rparr>))])
          \<and> error (add_error (r\<lparr>email := PyStr ''not-an-email''\<rparr>)) = ''invalid_email''"
    if "row_errors r = []"
  proof -
    let ?q = "r\<lparr>email := PyStr ''not-an-email''\<rparr>"
    from that have "errs r = []"
      by (simp add: row_errors_nil)
    then have "errs ?q = [''invalid_email'']"
      by (rule errs_email_only)
    then have q: "row_errors ?q = ''invalid_email''"
      by (simp add: row_errors_def)
    then have "row_errors ?q \<noteq> []"
      by simp
    then have "validate_rows [(i, ?q)] = ([], [(i, add_error ?q)])"
      by (rule validate_single_invalid)
    moreover have "normalize_types dp (normalize_strings
        [(i, r0\<lparr>email := PyStr ''not-an-email''\<rparr>)]) = [(i, ?q)]"
      by (simp only: normalize_single normalize_row_email r)
    ultimately show ?thesis
      using q by (simp add: error_add_error)
  qed
  from a b show ?thesis by blast
qed

lemma example_ok_errors: "row_errors example_ok = []"
  by (simp add: eval_examples row_errors_def errs_def eval_email eval_strings)

theorem invalid_email_rule_witness:
  "normalize_types example_parser (normalize_strings [(0, example_raw)]) = [(0, example_ok)]
   \<and> row_errors example_ok = []
   \<and> ''invalid_email'' \<notin> set (errs example_ok)
   \<and> py_str (email example_ok) \<in> email_pattern
   \<and> validate_rows (normalize_types example_parser (normalize_strings
         [(0, example_raw\<lparr>email := PyStr ''not-an-email''\<rparr>)]))
       = ([], [(0, add_error (example_ok\<lparr>email := PyStr ''not-an-email''\<rparr>))])
   \<and> error (add_error (example_ok\<lparr>email := PyStr ''not-an-email''\<rparr>)) = ''invalid_email''"
proof -
  note t = invalid_email_rule [OF example_raw_normalized]
  have e: "errs example_ok = []"
    using example_ok_errors by (simp add: row_errors_nil)
  then have "''invalid_email'' \<notin> set (errs example_ok)"
    by simp
  with t have "py_str (email example_ok) \<in> email_pattern"
    by blast
  with t e example_raw_normalized example_ok_errors show ?thesis
    by simp
qed

subsection \<open>Two rules at once\<close>

lemma parse_bool_maybe: "parse_bool (PyStr ''maybe'') = PyNone"
  by (simp add: parse_bool_def eval_strings)

lemma parse_date_blank: "parse_date dp (PyStr []) = PyNone" "parse_date dp PyNaN = PyNone"
  by (simp_all add: parse_date_def)

text \<open>
  Claim C5, as the program has it. For an input row with \<open>active\<close> the text \<open>maybe\<close> and
  \<open>start_date\<close> empty (the empty string, or the missing value the loader puts for an
  empty cell), whose other four rules pass after normalisation, the row is invalid and
  its descriptor is exactly \<open>invalid_start_date;invalid_active\<close>: both rules trigger,
  and their names come in the order of the table.
\<close>

theorem active_date_descriptor:
  assumes "normalize_types dp (normalize_strings [(i, r0)]) = [(i, r)]"
    and "active r0 = PyStr ''maybe''"
    and "start_date r0 = PyStr [] \<or> start_date r0 = PyNaN"
    and "\<not> violated r Missing_id" and "\<not> violated r Missing_name"
    and "\<not> violated r Invalid_email" and "\<not> violated r Missing_role"
  shows "row_errors r = ''invalid_start_date;invalid_active''
    \<and> validate_rows (normalize_types dp (normalize_strings [(i, r0)]))
        = ([], [(i, add_error r)])
    \<and> error (add_error r) = ''invalid_start_date;invalid_active''"
proof -
  from assms(1) have r: "r = normalize_row dp r0"
    by (simp add: normalize_single)
  with assms(2) have "active r = PyNone"
    by (simp add: normalize_row_def parse_bool_maybe)
  then have a: "violated r Invalid_active"
    by simp
  from r assms(3) have "start_date r = PyNone"
    by (auto simp: normalize_row_def parse_date_blank)
  then have s: "violated r Invalid_start_date"
    by simp
  from a s assms(4-7) have "filter (violated r) rule_table = [Invalid_start_date, Invalid_active]"
    by (simp add: rule_table_def)
  then have e: "row_errors r = ''invalid_start_date;invalid_active''"
    by (simp add: row_errors_def errs_table [OF r])
  then have "row_errors r \<noteq> []"
    by simp
  then have "validate_rows [(i, r)] = ([], [(i, add_error r)])"
    by (rule validate_single_invalid)
  with e assms(1) show ?thesis
    by (simp add: error_add_error)
qed

lemma example_maybe_normalized:
  "normalize_types example_parser (normalize_strings
     [(0, example_raw\<lparr>start_date := PyStr [], active := PyStr ''maybe''\<rparr>)])
   = [(0, example_ok\<lparr>start_date := PyNone, active := PyNone\<rparr>)]"
  by (simp add: eval_examples eval_normalize eval_strings)

lemma example_maybe_rules:
  "\<not> violated (example_ok\<lparr>start_date := PyNone, active := PyNone\<rparr>) Missing_id"
  "\<not> violated (example_ok\<lparr>start_date := PyNone, active := PyNone\<rparr>) Missing_name"
  "\<not> violated (example_ok\<lparr>start_date := PyNone, active := PyNone\<rparr>) Invalid_email"
  "\<not> violated (example_ok\<lparr>start_date := PyNone, active := PyNone\<rparr>) Missing_role"
proof -
  have "email_re_match ''a@b.com''"
    by (simp add: eval_email eval_strings)
  moreover have "stripped ''a@b.com''"
    by (simp add: stripped_def eval_strings)
  ultimately have "''a@b.com'' \<in> email_pattern"
    by (simp add: email_re_match_stripped)
  then show "\<not> violated (example_ok\<lparr>start_date := PyNone, active := PyNone\<rparr>) Invalid_email"
    by (simp add: example_ok_def)
qed (simp_all add: example_ok_def eval_strings)

theorem active_date_descriptor_witness:
  "normalize_types example_parser (normalize_strings
     [(0, example_raw\<lparr>start_date := PyStr [], active := PyStr ''maybe''\<rparr>)])
     = [(0, example_ok\<lparr>start_date := PyNone, active := PyNone\<rparr>)]
   \<and> active (example_raw\<lparr>start_date := PyStr [], active := PyStr ''maybe''\<rparr>) = PyStr ''maybe''
   \<and> start_date (example_raw\<lparr>start_date := PyStr [], active := PyStr ''maybe''\<rparr>) = PyStr []
   \<and> row_errors (example_ok\<lparr>start_date := PyNone, active := PyNone\<rparr>)
       = ''invalid_start_date;invalid_active''
   \<and> validate_rows (normalize_types example_parser (normalize_strings
         [(0, example_raw\<lparr>start_date := PyStr [], active := PyStr ''maybe''\<rparr>)]))
       = ([], [(0, add_error (example_ok\<lparr>start_date := PyNone, active := PyNone\<rparr>))])"
proof -
  let ?raw = "example_raw\<lparr>start_date := PyStr [], active := PyStr ''maybe''\<rparr>"
  have a: "active ?raw = PyStr ''maybe''" and s: "start_date ?raw = PyStr []"
    by simp_all
  then have s': "start_date ?raw = PyStr [] \<or> start_date ?raw = PyNaN"
    by simp
  from active_date_descriptor [OF example_maybe_normalized a s' example_maybe_rules]
    example_maybe_normalized a s
  show ?thesis by simp
qed

text \<open>
  The descriptor of that row is not the string \<open>invalid_active;invalid_start_date\<close>.
\<close>

theorem active_date_counterexample:
  "map (error \<circ> snd) (snd (validate_rows (normalize_types example_parser (normalize_strings
       [(0, example_raw\<lparr>start_date := PyStr [], active := PyStr ''maybe''\<rparr>)]))))
     = [''invalid_start_date;invalid_active'']
   \<and> map (error \<circ> snd) (snd (validate_rows (normalize_types example_parser (normalize_strings
       [(0, example_raw\<lparr>start_date := PyStr [], active := PyStr ''maybe''\<rparr>)]))))
     \<noteq> [''invalid_active;invalid_start_date'']"
  unfolding example_maybe_normalized
  by (simp add: eval_examples eval_validate eval_email eval_strings)

subsection \<open>Normalising twice\<close>

lemma parse_bool_bool: "parse_bool (PyBool b) = PyBool b"
  by (cases b) (simp_all add: parse_bool_def eval_strings)

lemma parse_bool_none: "parse_bool PyNone = PyNone"
  by (simp add: parse_bool_def)

lemma parse_date_none: "parse_date dp PyNone = PyNone"
  by (simp add: parse_date_def)

lemma parse_date_iso:
  "dp (isoformat d) = Some dt \<Longrightarrow> isoformat (date_of dt) = isoformat d \<Longrightarrow>
   parse_date dp (PyStr (isoformat d)) = PyStr (isoformat d)"
  by (simp add: parse_date_def isoformat_strip)

lemma text_fixed: "stripped t \<Longrightarrow> replace_empty (str_strip (astype_str (PyStr t))) = PyStr t"
  by (simp add: astype_str_def stripped_fixed) (simp add: stripped_def)

text \<open>
  Claim C6, as the program has it. A row that the two stages produce, in which name,
  email and role are not null, and whose \<open>start_date\<close> is null or is a text that the date
  parser reads back as the same date, is left as it is when the two stages are applied to
  it again: trimming, collapsing the whitespace of the name, the boolean coercion and
  the trimming of the id change nothing the second time. The date is the one field whose
  second pass depends on more than the field itself: the canonical text goes through the
  parser again, with its preference for the day first.
\<close>

theorem normalize_idempotent:
  assumes "(i, r) \<in> set (normalize_types dp (normalize_strings df))"
    and "name r \<noteq> PyNone" and "email r \<noteq> PyNone" and "role r \<noteq> PyNone"
    and "start_date r = PyNone
         \<or> (\<exists>dt. dp (py_str (start_date r)) = Some dt
                \<and> isoformat (date_of dt) = py_str (start_date r))"
  shows "normalize_types dp (normalize_strings [(i, r)]) = [(i, r)]"
proof -
  from assms(1) obtain r0 where r: "r = normalize_row dp r0"
    by (auto simp: in_normalized)
  note sh = normalized_shape [OF r]
  from sh(1) have a: "str_strip (astype_str (id' r)) = id' r"
    by (auto simp: astype_str_def)
  from sh(2) assms(2) obtain t where t: "name r = PyStr t" "stripped t" "collapse t = t"
    by blast
  then have b: "str_replace_ws (replace_empty (str_strip (astype_str (name r)))) = name r"
    by (simp add: text_fixed)
  from sh(3) assms(3) have c: "replace_empty (str_strip (astype_str (email r))) = email r"
    by (auto simp: text_fixed)
  from sh(4) assms(4) have d: "replace_empty (str_strip (astype_str (role r))) = role r"
    by (auto simp: text_fixed)
  from sh(5) assms(5) have e: "parse_date dp (start_date r) = start_date r"
    by (auto simp: parse_date_none parse_date_iso)
  from sh(6) have f: "parse_bool (active r) = active r"
    by (auto simp: parse_bool_none parse_bool_bool)
  from a b c d e f have "normalize_row dp r = r"
    by (simp add: normalize_row_def)
  then show ?thesis
    by (simp add: normalize_single)
qed

theorem normalize_idempotent_witness:
  "(0, example_ok) \<in> set (normalize_types example_parser (normalize_strings [(0, example_raw)]))
   \<and> name example_ok \<noteq> PyNone \<and> email example_ok \<noteq> PyNone \<and> role example_ok \<noteq> PyNone
   \<and> example_parser (py_str (start_date example_ok))
       = Some \<lparr>year = 2023, month = 5, day = 15, hour = 0, minute = 0, second = 0\<rparr>
   \<and> isoformat (date_of \<lparr>year = 2023, month = 5, day = 15, hour = 0, minute = 0, second = 0\<rparr>)
       = py_str (start_date example_ok)
   \<and> normalize_types example_parser (normalize_strings [(0, example_ok)]) = [(0, example_ok)]"
proof -
  let ?dt = "\<lparr>year = 2023, month = 5, day = 15, hour = 0, minute = 0, second = 0\<rparr>"
  have m: "(0, example_ok) \<in> set (normalize_types example_parser (normalize_strings [(0, example_raw)]))"
    by (simp only: example_raw_normalized list.set(2) insertI1)
  have n: "name example_ok \<noteq> PyNone" "email example_ok \<noteq> PyNone" "role example_ok \<noteq> PyNone"
    by (simp_all add: example_ok_def)
  have p: "example_parser (py_str (start_date example_ok)) = Some ?dt"
    by (simp add: example_ok_def example_parser_def)
  have q: "isoformat (date_of ?dt) = py_str (start_date example_ok)"
    by (simp add: example_ok_def isoformat_def zfill_def dec.simps digit_char_def date_of_def)
  from p q have "start_date example_ok = PyNone
      \<or> (\<exists>dt. example_parser (py_str (start_date example_ok)) = Some dt
             \<and> isoformat (date_of dt) = py_str (start_date example_ok))"
    by blast
  from normalize_idempotent [OF m n this] m n p q show ?thesis
    by (simp only: simp_thms)
qed

text \<open>
  A row that the two stages produce and that they change when applied again. The date
  \<open>10.05.2023\<close> is normalised to \<open>2023-05-10\<close>; the parser, which prefers the day first,
  reads that text as the 5th of October, and the second pass gives \<open>2023-10-05\<close>. Every
  other field of this row is non-null and stays as it is. The last two facts are the case
  the hypothesis on name, email and role leaves out: a name of whitespace only is \<open>None\<close>
  after the two stages, and \<open>astype(str)\<close> makes the text \<open>None\<close> of it in the second pass.
\<close>

theorem normalize_twice_counterexample:
  "normalize_types example_dayfirst (normalize_strings
       [(0, example_raw\<lparr>start_date := PyStr ''10.05.2023''\<rparr>)])
     = [(0, example_ok\<lparr>start_date := PyStr ''2023-05-10''\<rparr>)]
   \<and> normalize_types example_dayfirst (normalize_strings
       [(0, example_ok\<lparr>start_date := PyStr ''2023-05-10''\<rparr>)])
     = [(0, example_ok\<lparr>start_date := PyStr ''2023-10-05''\<rparr>)]
   \<and> normalize_types example_dayfirst (normalize_strings
       [(0, example_ok\<lparr>start_date := PyStr ''2023-05-10''\<rparr>)])
     \<noteq> [(0, example_ok\<lparr>start_date := PyStr ''2023-05-10''\<rparr>)]
   \<and> normalize_types example_parser (normalize_strings
       [(0, example_raw\<lparr>name := PyStr ''  ''\<rparr>)]) = [(0, example_ok\<lparr>name := PyNone\<rparr>)]
   \<and> normalize_types example_parser (normalize_strings [(0, example_ok\<lparr>name := PyNone\<rparr>)])
     = [(0, example_ok\<lparr>name := PyStr ''None''\<rparr>)]"
proof -
  have 1: "normalize_types example_dayfirst (normalize_strings
       [(0, example_raw\<lparr>start_date := PyStr ''10.05.2023''\<rparr>)])
     = [(0, example_ok\<lparr>start_date := PyStr ''2023-05-10''\<rparr>)]"
    by (simp add: eval_examples example_dayfirst_def eval_normalize eval_strings)
  have 2: "normalize_types example_dayfirst (normalize_strings
       [(0, example_ok\<lparr>start_date := PyStr ''2023-05-10''\<rparr>)])
     = [(0, example_ok\<lparr>start_date := PyStr ''2023-10-05''\<rparr>)]"
    by (simp add: eval_examples example_dayfirst_def eval_normalize eval_strings)
  have 3: "[(0::nat, example_ok\<lparr>start_date := PyStr ''2023-10-05''\<rparr>)]
      \<noteq> [(0, example_ok\<lparr>start_date := PyStr ''2023-05-10''\<rparr>)]"
    by (simp add: example_ok_def)
  have 4: "normalize_types example_parser (normalize_strings
       [(0, example_raw\<lparr>name := PyStr ''  ''\<rparr>)]) = [(0, example_ok\<lparr>name := PyNone\<rparr>)]"
    by (simp add: eval_examples eval_normalize eval_strings)
  have 5: "normalize_types example_parser (normalize_strings [(0, example_ok\<lparr>name := PyNone\<rparr>)])
      = [(0, example_ok\<lparr>name := PyStr ''None''\<rparr>)]"
    by (simp add: eval_examples eval_normalize eval_strings)
  from 1 2 3 4 5 show ?thesis
    by (simp only: simp_thms)
qed

subsection \<open>Absent name and role\<close>

text \<open>
  Claim C2, on the program. A row whose name cell is empty in the file, and a row whose
  role cell is empty: the loader gives \<open>NaN\<close> for both, \<open>astype(str)\<close> turns it into the
  text \<open>nan\<close>, and both rows are returned as valid, with no \<open>missing_name\<close> and no
  \<open>missing_role\<close>.
\<close>

theorem absent_name_not_flagged:
  "validate_rows (normalize_types example_parser (normalize_strings
      [(0, example_raw\<lparr>name := PyNaN\<rparr>),
       (1, example_raw\<lparr>id' := PyStr ''8'', role := PyNaN\<rparr>)]))
   = ([(0, example_ok\<lparr>name := PyStr ''nan''\<rparr>),
       (1, example_ok\<lparr>id' := PyStr ''8'', role := PyStr ''nan''\<rparr>)], [])"
proof -
  have "normalize_types example_parser (normalize_strings
      [(0, example_raw\<lparr>name := PyNaN\<rparr>),
       (1, example_raw\<lparr>id' := PyStr ''8'', role := PyNaN\<rparr>)])
    = [(0, example_ok\<lparr>name := PyStr ''nan''\<rparr>),
       (1, example_ok\<lparr>id' := PyStr ''8'', role := PyStr ''nan''\<rparr>)]"
    by (simp add: eval_examples eval_normalize eval_strings)
  then show ?thesis
    by (simp add: eval_examples eval_validate eval_email eval_strings)
qed

end
